theory Spec2Isabelle
  imports Complex_Main "HOL-Library.Word"
begin

unbundle bit_operations_syntax

section \<open>Values of the program\<close>

text \<open>
  Python \<open>bytes\<close> are lists of 8-bit words; a Python \<open>str\<close> is its list of code
  points. Timestamps returned by \<open>time()\<close> are modelled as real numbers (the rounding of
  floating-point subtraction is not modelled).
\<close>

type_synonym byte = "8 word"
type_synonym bytes = "byte list"
type_synonym str = "nat list"

text \<open>
  The exceptions of \<open>Server.py\<close>, followed by the built-in ones that its calls can raise.
  \<open>Timeout\<close> is \<open>socket.timeout\<close>, \<open>CryptError\<close> stands for whatever the \<open>Crypt\<close>
  module raises.
\<close>

datatype exn =
    KeyExchangeFailed | InvalidToken | DisconnectedClient | UnableToDecrypt | TooManyQueries
  | OSError | Timeout | ValueError | OverflowError
  | UnicodeDecodeError | UnicodeEncodeError | KeyError | CryptError

text \<open>\<open>socket.error\<close> is \<open>OSError\<close>, of which \<open>socket.timeout\<close> is a subclass.\<close>

definition is_socket_error :: "exn \<Rightarrow> bool" where
  "is_socket_error e = (e = OSError \<or> e = Timeout)"

subsection \<open>\<open>str.encode()\<close> and \<open>bytes.decode()\<close>: strict UTF-8\<close>

definition encode_cp :: "nat \<Rightarrow> bytes option" where
  "encode_cp c =
    (if c < 0x80 then Some [of_nat c]
     else if c < 0x800 then Some [of_nat (0xC0 + c div 64), of_nat (0x80 + c mod 64)]
     else if 0xD800 \<le> c \<and> c < 0xE000 then None
     else if c < 0x10000 then
       Some [of_nat (0xE0 + c div 4096), of_nat (0x80 + (c div 64) mod 64),
             of_nat (0x80 + c mod 64)]
     else if c < 0x110000 then
       Some [of_nat (0xF0 + c div 262144), of_nat (0x80 + (c div 4096) mod 64),
             of_nat (0x80 + (c div 64) mod 64), of_nat (0x80 + c mod 64)]
     else None)"

fun utf8_encode :: "str \<Rightarrow> bytes option" where
  "utf8_encode [] = Some []"
| "utf8_encode (c # cs) =
    (case encode_cp c of
       None \<Rightarrow> None
     | Some bs \<Rightarrow> (case utf8_encode cs of None \<Rightarrow> None | Some r \<Rightarrow> Some (bs @ r)))"

text \<open>
  The decoder reads byte by byte: \<open>k\<close> continuation bytes are still due, \<open>acc\<close> holds the
  bits read so far, and the next byte must lie in \<open>lo..hi\<close> (this is what excludes overlong
  forms, surrogates and code points above \<open>0x10FFFF\<close>).
\<close>

fun utf8_dec :: "nat \<Rightarrow> nat \<Rightarrow> nat \<Rightarrow> nat \<Rightarrow> bytes \<Rightarrow> str option" where
  "utf8_dec k acc lo hi [] = (if k = 0 then Some [] else None)"
| "utf8_dec k acc lo hi (b # bs) =
    (if k = 0 then
       (if unat b < 0x80 then map_option ((#) (unat b)) (utf8_dec 0 0 0 0 bs)
        else if 0xC2 \<le> unat b \<and> unat b \<le> 0xDF then utf8_dec 1 (unat b - 0xC0) 0x80 0xBF bs
        else if unat b = 0xE0 then utf8_dec 2 0 0xA0 0xBF bs
        else if unat b = 0xED then utf8_dec 2 0xD 0x80 0x9F bs
        else if 0xE1 \<le> unat b \<and> unat b \<le> 0xEF then utf8_dec 2 (unat b - 0xE0) 0x80 0xBF bs
        else if unat b = 0xF0 then utf8_dec 3 0 0x90 0xBF bs
        else if 0xF1 \<le> unat b \<and> unat b \<le> 0xF3 then utf8_dec 3 (unat b - 0xF0) 0x80 0xBF bs
        else if unat b = 0xF4 then utf8_dec 3 4 0x80 0x8F bs
        else None)
     else if lo \<le> unat b \<and> unat b \<le> hi then
       (if k = 1 then
          map_option ((#) (acc * 64 + (unat b - 0x80))) (utf8_dec 0 0 0 0 bs)
        else utf8_dec (k - 1) (acc * 64 + (unat b - 0x80)) 0x80 0xBF bs)
     else None)"

definition utf8_decode :: "bytes \<Rightarrow> str option" where
  "utf8_decode bs = utf8_dec 0 0 0 0 bs"

subsection \<open>\<open>int.to_bytes(n, "big")\<close> and \<open>int.from_bytes(b, "big")\<close>\<close>

fun be_bytes :: "nat \<Rightarrow> nat \<Rightarrow> bytes" where
  "be_bytes 0 n = []"
| "be_bytes (Suc k) n = be_bytes k (n div 256) @ [of_nat (n mod 256)]"

definition to_bytes_big :: "nat \<Rightarrow> int \<Rightarrow> exn + bytes" where
  "to_bytes_big n len =
    (if len < 0 then Inl ValueError
     else if 256 ^ nat len \<le> n then Inl OverflowError
     else Inr (be_bytes (nat len) n))"

definition from_bytes_big :: "bytes \<Rightarrow> nat" where
  "from_bytes_big bs = foldl (\<lambda>a b. a * 256 + unat b) 0 bs"

subsection \<open>\<open>bytes.replace(old, b"", 1)\<close>\<close>

text \<open>Removes the leftmost occurrence of \<open>old\<close>, if there is one.\<close>

fun remove_first :: "bytes \<Rightarrow> bytes \<Rightarrow> bytes" where
  "remove_first old [] = []"
| "remove_first old (x # xs) =
    (if take (length old) (x # xs) = old then drop (length old) (x # xs)
     else x # remove_first old xs)"

section \<open>The environment: randomness, the socket, the \<open>Crypt\<close> module\<close>

text \<open>
  The random source is a tape of bytes; \<open>get_random_bytes(n)\<close> takes the first \<open>n\<close> of
  them and raises on a negative \<open>n\<close>.
\<close>

type_synonym entropy = "nat \<Rightarrow> byte"

definition get_random_bytes :: "int \<Rightarrow> entropy \<Rightarrow> (exn + bytes) \<times> entropy" where
  "get_random_bytes n ent =
    (if n < 0 then (Inl ValueError, ent)
     else (Inr (map ent [0..<nat n]), \<lambda>i. ent (nat n + i)))"

text \<open>
  A socket object. \<open>pending\<close> is what the coming \<open>recv\<close> calls will find, one entry per
  arrival: a failure (a timeout, a broken connection), or the bytes that have arrived by
  then; a call that asks for fewer bytes than have arrived leaves the rest for the next
  call, a call that asks for more gets what has arrived (a short read). When nothing is
  left, or at an empty arrival, the peer has closed: \<open>recv\<close> returns \<open>b""\<close>, now and
  at every later call. \<open>send_results\<close> is the outcome of the coming \<open>send\<close> calls. \<open>calls\<close> logs every call made on the socket, oldest first. A write is taken
  whole or fails; the memory that a large read needs is not modelled.
\<close>

datatype call = Settimeout "real option" | Send bytes | Recv int | Shutdown | Close

datatype sock_failure = TimedOut | Broken

fun raised :: "sock_failure \<Rightarrow> exn" where
  "raised TimedOut = Timeout"
| "raised Broken = OSError"

record sock =
  pending :: "(sock_failure + bytes) list"
  send_results :: "sock_failure option list"
  calls :: "call list"
  timeout :: "real option"
  is_closed :: bool

definition logged :: "call \<Rightarrow> sock \<Rightarrow> sock" where
  "logged c s = s\<lparr>calls := calls s @ [c]\<rparr>"

definition conn_settimeout :: "real option \<Rightarrow> sock \<Rightarrow> (exn + unit) \<times> sock" where
  "conn_settimeout t s =
    (let s' = logged (Settimeout t) s in
     if (case t of None \<Rightarrow> False | Some x \<Rightarrow> x < 0) then (Inl ValueError, s')
     else if is_closed s then (Inl OSError, s')
     else (Inr (), s'\<lparr>timeout := t\<rparr>))"

definition conn_recv :: "int \<Rightarrow> sock \<Rightarrow> (exn + bytes) \<times> sock" where
  "conn_recv n s =
    (let s' = logged (Recv n) s in
     if n < 0 then (Inl ValueError, s')
     else if is_closed s then (Inl OSError, s')
     else (case pending s of
             [] \<Rightarrow> (Inr [], s')
           | Inl f # rest \<Rightarrow> (Inl (raised f), s'\<lparr>pending := rest\<rparr>)
           | Inr bs # rest \<Rightarrow>
               if bs = [] then (Inr [], s')
               else if length bs \<le> nat n then (Inr bs, s'\<lparr>pending := rest\<rparr>)
               else (Inr (take (nat n) bs), s'\<lparr>pending := Inr (drop (nat n) bs) # rest\<rparr>)))"

definition conn_send :: "bytes \<Rightarrow> sock \<Rightarrow> (exn + unit) \<times> sock" where
  "conn_send d s =
    (let s' = logged (Send d) s in
     if is_closed s then (Inl OSError, s')
     else (case send_results s of
             [] \<Rightarrow> (Inr (), s')
           | None # rest \<Rightarrow> (Inr (), s'\<lparr>send_results := rest\<rparr>)
           | Some f # rest \<Rightarrow> (Inl (raised f), s'\<lparr>send_results := rest\<rparr>)))"

text \<open>\<open>shutdown\<close> may raise \<open>OSError\<close>; its only caller swallows it.\<close>

definition conn_shutdown :: "sock \<Rightarrow> sock" where
  "conn_shutdown s = logged Shutdown s"

definition conn_close :: "sock \<Rightarrow> sock" where
  "conn_close s = (logged Close s)\<lparr>is_closed := True\<rparr>"

text \<open>
  The module \<open>Crypt_Server.Crypt\<close> is not part of the sources at hand. Its five functions
  are parameters of the model; each may raise, and the encrypting and generating ones may
  draw from the random source.
\<close>

record crypt =
  generate_aes :: "int \<Rightarrow> entropy \<Rightarrow> (exn + bytes) \<times> entropy"
  encrypt_rsa :: "bytes \<Rightarrow> str \<Rightarrow> entropy \<Rightarrow> (exn + bytes) \<times> entropy"
  decrypt_rsa :: "bytes \<Rightarrow> bytes \<Rightarrow> exn + bytes"
  encrypt_aes :: "bytes \<Rightarrow> bytes \<Rightarrow> entropy \<Rightarrow> (exn + bytes) \<times> entropy"
  decrypt_aes :: "bytes \<Rightarrow> bytes \<Rightarrow> exn + bytes"

section \<open>class Connection\<close>

record connection =
  conn :: sock
  client_token :: bytes
  server_token :: bytes
  aes_key :: bytes
  last_query :: real
  query_cooldown :: real

definition Connection :: "sock \<Rightarrow> bytes \<Rightarrow> bytes \<Rightarrow> bytes \<Rightarrow> connection" where
  "Connection s ctok stok key =
    \<lparr>conn = s, client_token = ctok, server_token = stok, aes_key = key,
     last_query = 0, query_cooldown = 0\<rparr>"

definition close :: "connection \<Rightarrow> connection" where
  "close c = c\<lparr>conn := conn_close (conn_shutdown (conn c))\<rparr>"

definition set_query_cooldown :: "real \<Rightarrow> connection \<Rightarrow> connection" where
  "set_query_cooldown cooldown c = c\<lparr>query_cooldown := cooldown\<rparr>"

text \<open>
  \<open>send\<close>: the encoding, the encryption and \<open>to_bytes\<close> are outside the \<open>try\<close>; only a
  \<open>socket.error\<close> of \<open>conn.send\<close> closes the connection and becomes
  \<open>DisconnectedClient\<close>.
\<close>

definition send :: "crypt \<Rightarrow> str \<Rightarrow> int \<Rightarrow> entropy \<Rightarrow> connection \<Rightarrow> (exn + unit) \<times> connection" where
  "send cr msg number_size ent c =
    (case utf8_encode msg of
       None \<Rightarrow> (Inl UnicodeEncodeError, c)
     | Some enc \<Rightarrow>
        (case fst (encrypt_aes cr (server_token c @ enc) (aes_key c) ent) of
           Inl e \<Rightarrow> (Inl e, c)
         | Inr ct \<Rightarrow>
            (case to_bytes_big (length ct) number_size of
               Inl e \<Rightarrow> (Inl e, c)
             | Inr leng \<Rightarrow>
                (case conn_send (leng @ ct) (conn c) of
                   (Inl e, s') \<Rightarrow>
                     if is_socket_error e then (Inl DisconnectedClient, close (c\<lparr>conn := s'\<rparr>))
                     else (Inl e, c\<lparr>conn := s'\<rparr>)
                 | (Inr u, s') \<Rightarrow> (Inr (), c\<lparr>conn := s'\<rparr>)))))"

text \<open>
  \<open>recv\<close>: \<open>now\<close> is what \<open>time()\<close> returns at the cooldown check, \<open>fin\<close> what it returns
  when the timestamp is updated.
\<close>

definition recv :: "crypt \<Rightarrow> real option \<Rightarrow> int \<Rightarrow> real \<Rightarrow> real \<Rightarrow> connection \<Rightarrow> (exn + str) \<times> connection" where
  "recv cr tmo number_size now fin c =
    (if now - last_query c < query_cooldown c then (Inl TooManyQueries, c)
     else
      (case conn_settimeout tmo (conn c) of
         (Inl e, s1) \<Rightarrow> (Inl e, c\<lparr>conn := s1\<rparr>)
       | (Inr u, s1) \<Rightarrow>
          (case conn_recv number_size s1 of
             (Inl e, s2) \<Rightarrow> (Inl e, c\<lparr>conn := s2\<rparr>)
           | (Inr hdr, s2) \<Rightarrow>
              (case conn_recv (int (from_bytes_big hdr)) s2 of
                 (Inl e, s3) \<Rightarrow> (Inl e, c\<lparr>conn := s3\<rparr>)
               | (Inr msg, s3) \<Rightarrow>
                  if msg = [] then (Inl DisconnectedClient, close (c\<lparr>conn := s3\<rparr>))
                  else
                   (case decrypt_aes cr msg (aes_key c) of
                      Inl e \<Rightarrow> (Inl UnableToDecrypt, c\<lparr>conn := s3\<rparr>)
                    | Inr plain \<Rightarrow>
                       if client_token c = take (length (client_token c)) plain then
                         (case utf8_decode (remove_first (client_token c) plain) of
                            None \<Rightarrow> (Inl UnicodeDecodeError, c\<lparr>conn := s3, last_query := fin\<rparr>)
                          | Some txt \<Rightarrow> (Inr txt, c\<lparr>conn := s3, last_query := fin\<rparr>))
                       else (Inl InvalidToken, c\<lparr>conn := s3\<rparr>))))))"

definition get_conn :: "connection \<Rightarrow> sock" where
  "get_conn c = conn c"

section \<open>Server.key_exchange\<close>

text \<open>
  The body of the \<open>try\<close> block, statement by statement. The keys of the server are the
  dictionary \<open>claves\<close>. The result is the triple (client token, server token, symmetric
  key) and the socket as the block leaves it.
\<close>

definition handshake ::
  "crypt \<Rightarrow> (string \<rightharpoonup> bytes) \<Rightarrow> int \<Rightarrow> int \<Rightarrow> entropy \<Rightarrow> sock \<Rightarrow> (exn + bytes \<times> bytes \<times> bytes) \<times> sock" where
  "handshake cr claves tunnel_anchor token_size ent s =
    (case generate_aes cr 32 ent of
       (Inl e, ent1) \<Rightarrow> (Inl e, s)
     | (Inr key, ent1) \<Rightarrow>
    (case claves ''PUBLIC'' of
       None \<Rightarrow> (Inl KeyError, s)
     | Some pub \<Rightarrow>
    (case conn_send pub s of
       (Inl e, s1) \<Rightarrow> (Inl e, s1)
     | (Inr u1, s1) \<Rightarrow>
    (case conn_recv tunnel_anchor s1 of
       (Inl e, s2) \<Rightarrow> (Inl e, s2)
     | (Inr m1, s2) \<Rightarrow>
    (case claves ''PRIVATE'' of
       None \<Rightarrow> (Inl KeyError, s2)
     | Some priv \<Rightarrow>
    (case decrypt_rsa cr m1 priv of
       Inl e \<Rightarrow> (Inl e, s2)
     | Inr pb \<Rightarrow>
    (case utf8_decode pb of
       None \<Rightarrow> (Inl UnicodeDecodeError, s2)
     | Some public \<Rightarrow>
    (case get_random_bytes token_size ent1 of
       (Inl e, ent2) \<Rightarrow> (Inl e, s2)
     | (Inr stok, ent2) \<Rightarrow>
    (case encrypt_rsa cr stok public ent2 of
       (Inl e, ent3) \<Rightarrow> (Inl e, s2)
     | (Inr c1, ent3) \<Rightarrow>
    (case conn_send c1 s2 of
       (Inl e, s3) \<Rightarrow> (Inl e, s3)
     | (Inr u2, s3) \<Rightarrow>
    (case conn_recv tunnel_anchor s3 of
       (Inl e, s4) \<Rightarrow> (Inl e, s4)
     | (Inr m2, s4) \<Rightarrow>
    (case decrypt_rsa cr m2 priv of
       Inl e \<Rightarrow> (Inl e, s4)
     | Inr tok \<Rightarrow>
    (case encrypt_rsa cr key public ent3 of
       (Inl e, ent4) \<Rightarrow> (Inl e, s4)
     | (Inr c2, ent4) \<Rightarrow>
    (case conn_send c2 s4 of
       (Inl e, s5) \<Rightarrow> (Inl e, s5)
     | (Inr u3, s5) \<Rightarrow> (Inr (tok, stok, key), s5)))))))))))))))"

text \<open>
  \<open>key_exchange\<close>: \<open>settimeout\<close> is outside the \<open>try\<close>; any exception of the block
  closes the socket and raises \<open>KeyExchangeFailed\<close>. The second component is the socket
  the caller passed in, as the call leaves it.
\<close>

definition key_exchange ::
  "crypt \<Rightarrow> (string \<rightharpoonup> bytes) \<Rightarrow> sock \<Rightarrow> real option \<Rightarrow> int \<Rightarrow> int \<Rightarrow> entropy \<Rightarrow> (exn + connection) \<times> sock" where
  "key_exchange cr claves s tmo tunnel_anchor token_size ent =
    (case conn_settimeout tmo s of
       (Inl e, s0) \<Rightarrow> (Inl e, s0)
     | (Inr u, s0) \<Rightarrow>
        (case handshake cr claves tunnel_anchor token_size ent s0 of
           (Inl e, s') \<Rightarrow> (Inl KeyExchangeFailed, conn_close s')
         | (Inr (tok, stok, key), s') \<Rightarrow> (Inr (Connection s' tok stok key), s')))"

section \<open>The handshake as the specification lists it\<close>

text \<open>
  The five protocol steps in the words of the specification (section 4.1), to be compared
  with \<open>handshake\<close>: (1) the server's public key goes out in plaintext; (2) the client's
  public key comes in and is decrypted with the server's private key; (3) a symmetric key
  and a server token of \<open>token_size\<close> random bytes are generated and the token goes out
  under the client's public key; (4) the client token comes in and is decrypted with the
  server's private key; (5) the symmetric key goes out under the client's public key. The
  relation holds when every step succeeds; it gives the socket calls made, the triple
  (client token, server token, symmetric key) and the socket afterwards.
\<close>

inductive five_messages ::
  "crypt \<Rightarrow> (string \<rightharpoonup> bytes) \<Rightarrow> int \<Rightarrow> int \<Rightarrow> entropy \<Rightarrow> sock \<Rightarrow>
     call list \<Rightarrow> bytes \<times> bytes \<times> bytes \<Rightarrow> sock \<Rightarrow> bool"
  for cr claves tunnel_anchor token_size ent s
  where
    steps:
      "claves ''PUBLIC'' = Some pub \<Longrightarrow>
       claves ''PRIVATE'' = Some priv \<Longrightarrow>
       conn_send pub s = (Inr (), sa) \<Longrightarrow>
       conn_recv tunnel_anchor sa = (Inr ma, sb) \<Longrightarrow>
       decrypt_rsa cr ma priv = Inr pb \<Longrightarrow>
       utf8_decode pb = Some public \<Longrightarrow>
       generate_aes cr 32 ent = (Inr key, enta) \<Longrightarrow>
       get_random_bytes token_size enta = (Inr stok, entb) \<Longrightarrow>
       encrypt_rsa cr stok public entb = (Inr ca, entc) \<Longrightarrow>
       conn_send ca sb = (Inr (), sc) \<Longrightarrow>
       conn_recv tunnel_anchor sc = (Inr mb, sd) \<Longrightarrow>
       decrypt_rsa cr mb priv = Inr tok \<Longrightarrow>
       encrypt_rsa cr key public entc = (Inr cb, entd) \<Longrightarrow>
       conn_send cb sd = (Inr (), se) \<Longrightarrow>
       five_messages cr claves tunnel_anchor token_size ent s
         [Send pub, Recv tunnel_anchor, Send ca, Recv tunnel_anchor, Send cb] (tok, stok, key) se"

section \<open>The contract of the symmetric cipher\<close>

text \<open>
  Modelled from the spec: the module \<open>Crypt_Server.Crypt\<close>, whose \<open>encrypt_aes\<close> and
  \<open>decrypt_aes\<close> decide what a corrupted ciphertext does, is not among the sources. The
  specification (section 6) says of it that \<open>symmetric_decrypt(ciphertext, key)\<close> "fails
  on tampered/foreign ciphertext". As a condition on the parameter: a ciphertext that
  \<open>encrypt_aes\<close> has produced under a key, with one bit of one byte flipped, makes
  \<open>decrypt_aes\<close> under that key raise.
\<close>

definition fails_on_tampered :: "crypt \<Rightarrow> bool" where
  "fails_on_tampered cr =
    (\<forall>m k ent ct i j.
       fst (encrypt_aes cr m k ent) = Inr ct \<and> i < length ct \<and> j < 8 \<longrightarrow>
       isl (decrypt_aes cr (ct[i := flip_bit j (ct ! i)]) k))"

section \<open>A small instance of the \<open>Crypt\<close> interface\<close>

text \<open>
  To run the model on concrete inputs, a cipher that is easy to read: the ciphertext is a
  tag byte derived from the key, followed by the masked plaintext written twice. Decryption
  raises unless the tag fits the key and the two copies agree. The asymmetric pair of the
  instance is a private key and the text with the same code points as public key.
\<close>

definition mask :: "bytes \<Rightarrow> byte" where
  "mask k = foldr (XOR) k 0x5A"

definition demo_encrypt :: "bytes \<Rightarrow> bytes \<Rightarrow> bytes" where
  "demo_encrypt m k = mask k # map (\<lambda>b. b XOR mask k) (m @ m)"

definition demo_decrypt :: "bytes \<Rightarrow> bytes \<Rightarrow> exn + bytes" where
  "demo_decrypt ct k =
    (case ct of
       [] \<Rightarrow> Inl CryptError
     | t # r \<Rightarrow>
        if t = mask k \<and> even (length r) \<and> take (length r div 2) r = drop (length r div 2) r
        then Inr (map (\<lambda>b. b XOR mask k) (take (length r div 2) r))
        else Inl CryptError)"

definition demo_crypt :: crypt where
  "demo_crypt =
    \<lparr>generate_aes = get_random_bytes,
     encrypt_rsa = (\<lambda>d pub ent. (Inr (demo_encrypt d (map of_nat pub)), ent)),
     decrypt_rsa = demo_decrypt,
     encrypt_aes = (\<lambda>m k ent. (Inr (demo_encrypt m k), ent)),
     decrypt_aes = demo_decrypt\<rparr>"

text \<open>
  A second instance, without the redundancy: the ciphertext is the tag byte followed by the
  masked plaintext, and decryption raises only on a wrong tag.
\<close>

definition stream_crypt :: crypt where
  "stream_crypt =
    \<lparr>generate_aes = get_random_bytes,
     encrypt_rsa = (\<lambda>d pub ent. (Inr (mask (map of_nat pub) # map (\<lambda>b. b XOR mask (map of_nat pub)) d), ent)),
     decrypt_rsa = (\<lambda>ct k. case ct of [] \<Rightarrow> Inl CryptError
        | t # r \<Rightarrow> if t = mask k then Inr (map (\<lambda>b. b XOR mask k) r) else Inl CryptError),
     encrypt_aes = (\<lambda>m k ent. (Inr (mask k # map (\<lambda>b. b XOR mask k) m), ent)),
     decrypt_aes = (\<lambda>ct k. case ct of [] \<Rightarrow> Inl CryptError
        | t # r \<Rightarrow> if t = mask k then Inr (map (\<lambda>b. b XOR mask k) r) else Inl CryptError)\<rparr>"

text \<open>The keys of a server for this instance.\<close>

definition demo_claves :: "string \<rightharpoonup> bytes" where
  "demo_claves = [''PUBLIC'' \<mapsto> [7], ''PRIVATE'' \<mapsto> [7]]"

text \<open>An open socket on which nothing has happened yet, with the given arrivals.\<close>

definition fresh_sock :: "(sock_failure + bytes) list \<Rightarrow> sock" where
  "fresh_sock arrivals =
    \<lparr>pending = arrivals, send_results = [], calls = [], timeout = None, is_closed = False\<rparr>"

text \<open>The bytes that have arrived and that no read has returned yet.\<close>

definition unread :: "sock \<Rightarrow> bytes" where
  "unread s = concat (map (case_sum (\<lambda>f. []) id) (pending s))"

section \<open>Runs of a connection\<close>

text \<open>
  The calls a program makes on one \<open>Connection\<close> object, each with what the environment
  supplies to it: for \<open>recv\<close> the two readings of the clock, for \<open>send\<close> the random
  source. A run keeps the object and drops what the calls return or raise.
\<close>

datatype op =
    Op_recv "real option" int real real
  | Op_send str int entropy
  | Op_set_query_cooldown real
  | Op_close

fun step :: "crypt \<Rightarrow> connection \<Rightarrow> op \<Rightarrow> connection" where
  "step cr c (Op_recv tmo number_size now fin) = snd (recv cr tmo number_size now fin c)"
| "step cr c (Op_send msg number_size ent) = snd (send cr msg number_size ent c)"
| "step cr c (Op_set_query_cooldown cooldown) = set_query_cooldown cooldown c"
| "step cr c Op_close = close c"

definition run :: "crypt \<Rightarrow> op list \<Rightarrow> connection \<Rightarrow> connection" where
  "run cr ops c = foldl (step cr) c ops"

text \<open>
  The clock does not run backwards: starting from the reading \<open>t\<close>, every reading in the
  run is at least the one before it.
\<close>

fun clock_ok :: "real \<Rightarrow> op list \<Rightarrow> bool" where
  "clock_ok t [] = True"
| "clock_ok t (Op_recv tmo number_size now fin # ops) = (t \<le> now \<and> now \<le> fin \<and> clock_ok fin ops)"
| "clock_ok t (Op_send msg number_size ent # ops) = clock_ok t ops"
| "clock_ok t (Op_set_query_cooldown cooldown # ops) = clock_ok t ops"
| "clock_ok t (Op_close # ops) = clock_ok t ops"

text \<open>No call of \<open>set_query_cooldown\<close> in the run has a positive argument.\<close>

fun never_positive :: "op list \<Rightarrow> bool" where
  "never_positive [] = True"
| "never_positive (Op_set_query_cooldown cooldown # ops) = (cooldown \<le> 0 \<and> never_positive ops)"
| "never_positive (Op_recv tmo number_size now fin # ops) = never_positive ops"
| "never_positive (Op_send msg number_size ent # ops) = never_positive ops"
| "never_positive (Op_close # ops) = never_positive ops"

section \<open>Facts about the environment\<close>


lemma conn_settimeout_calls: "calls (snd (conn_settimeout t s)) = calls s @ [Settimeout t]"
  by (simp add: conn_settimeout_def logged_def Let_def)

lemma conn_settimeout_ok:
  "conn_settimeout t s = (Inr u, s') \<Longrightarrow>
     \<not> is_closed s \<and> s' = s\<lparr>calls := calls s @ [Settimeout t], timeout := t\<rparr>"
  by (auto simp: conn_settimeout_def logged_def Let_def split: if_splits)

lemma conn_settimeout_succeeds:
  "\<not> is_closed s \<Longrightarrow> (\<forall>x. t = Some x \<longrightarrow> 0 \<le> x) \<Longrightarrow>
     conn_settimeout t s = (Inr (), s\<lparr>calls := calls s @ [Settimeout t], timeout := t\<rparr>)"
  by (auto simp: conn_settimeout_def logged_def Let_def split: option.splits)


lemma conn_recv_closed: "is_closed (snd (conn_recv n s)) = is_closed s"
  by (simp add: conn_recv_def logged_def Let_def split: list.splits sum.splits)

lemma conn_recv_ok: "conn_recv n s = (Inr bs, s') \<Longrightarrow> \<not> is_closed s \<and> 0 \<le> n"
  by (auto simp: conn_recv_def Let_def split: if_splits)

lemma conn_recv_eof:
  assumes "conn_recv n s = (Inr [], s')" and "0 < n"
  shows "conn_recv 0 s' = (Inr [], logged (Recv 0) s')"
  using assms
  by (auto simp: conn_recv_def logged_def Let_def split: if_splits list.splits sum.splits)

lemma raised_cases: "raised f = OSError \<or> raised f = Timeout"
  by (cases f) simp_all

lemma conn_recv_error:
  "conn_recv n s = (Inl e, s') \<Longrightarrow> e = ValueError \<or> e = OSError \<or> e = Timeout"
  using raised_cases
  by (auto simp: conn_recv_def Let_def split: if_splits list.splits sum.splits)

lemma conn_settimeout_error:
  "conn_settimeout t s = (Inl e, s') \<Longrightarrow> e = ValueError \<or> e = OSError"
  by (auto simp: conn_settimeout_def Let_def split: if_splits)

lemma from_bytes_big_Nil: "from_bytes_big [] = 0"
  by (simp add: from_bytes_big_def)

lemma close_calls: "calls (conn (close c)) = calls (conn c) @ [Shutdown, Close]"
  by (simp add: close_def conn_close_def conn_shutdown_def logged_def)

lemma close_closed: "is_closed (conn (close c))"
  by (simp add: close_def conn_close_def conn_shutdown_def logged_def)

section \<open>\<open>recv\<close>: cooldown, disconnection, failures of the content\<close>





lemma conn_recv_frame:
  "conn_recv n s = (r, s') \<Longrightarrow>
     is_closed s' = is_closed s \<and> calls s' = calls s @ [Recv n] \<and>
     send_results s' = send_results s \<and> timeout s' = timeout s"
  by (auto simp: conn_recv_def logged_def Let_def split: if_splits list.splits sum.splits)

text \<open>
  Claim C7. Once the cooldown check has passed and the length prefix has been read: if the
  read of the payload returns zero bytes, \<open>recv\<close> closes the connection (shutdown, then
  close, as its last socket calls) and raises \<open>DisconnectedClient\<close>. When the peer has
  closed at the length-prefix boundary, the prefix read returns zero bytes, the empty prefix
  decodes to length 0, the read of 0 bytes returns zero bytes and the same path is taken.
\<close>

theorem recv_disconnected:
  assumes "\<not> now - last_query c < query_cooldown c"
    and "conn_settimeout tmo (conn c) = (Inr (), sa)"
    and "conn_recv number_size sa = (Inr hdr, sb)"
  shows "(conn_recv (int (from_bytes_big hdr)) sb = (Inr [], sc) \<longrightarrow>
            recv cr tmo number_size now fin c = (Inl DisconnectedClient, close (c\<lparr>conn := sc\<rparr>)) \<and>
            is_closed (conn (close (c\<lparr>conn := sc\<rparr>))) \<and>
            calls (conn (close (c\<lparr>conn := sc\<rparr>))) = calls sc @ [Shutdown, Close]) \<and>
         (hdr = [] \<and> 0 < number_size \<longrightarrow>
            recv cr tmo number_size now fin c
              = (Inl DisconnectedClient, close (c\<lparr>conn := logged (Recv 0) sb\<rparr>)))"
proof (intro conjI impI)
  assume "conn_recv (int (from_bytes_big hdr)) sb = (Inr [], sc)"
  with assms show "recv cr tmo number_size now fin c = (Inl DisconnectedClient, close (c\<lparr>conn := sc\<rparr>))"
    by (simp add: recv_def)
next
  show "is_closed (conn (close (c\<lparr>conn := sc\<rparr>)))" by (rule close_closed)
next
  show "calls (conn (close (c\<lparr>conn := sc\<rparr>))) = calls sc @ [Shutdown, Close]"
    by (simp add: close_calls)
next
  assume h: "hdr = [] \<and> 0 < number_size"
  with assms(3) have "conn_recv 0 sb = (Inr [], logged (Recv 0) sb)"
    using conn_recv_eof by blast
  with assms h show "recv cr tmo number_size now fin c
              = (Inl DisconnectedClient, close (c\<lparr>conn := logged (Recv 0) sb\<rparr>))"
    by (simp add: recv_def from_bytes_big_Nil)
qed

theorem recv_disconnected_witness:
  "recv demo_crypt None 5 10 10 (Connection (fresh_sock [Inr [0, 0, 0, 0, 9]]) [1] [2] [3])
     = (Inl DisconnectedClient,
        close ((Connection (fresh_sock [Inr [0, 0, 0, 0, 9]]) [1] [2] [3])
          \<lparr>conn := snd (conn_recv 9 (snd (conn_recv 5 (snd (conn_settimeout None (fresh_sock [Inr [0, 0, 0, 0, 9]]))))))\<rparr>)) \<and>
   recv demo_crypt None 5 10 10 (Connection (fresh_sock []) [1] [2] [3])
     = (Inl DisconnectedClient,
        close ((Connection (fresh_sock []) [1] [2] [3])
          \<lparr>conn := logged (Recv 0) (snd (conn_recv 5 (snd (conn_settimeout None (fresh_sock [])))))\<rparr>))"
  using recv_disconnected [where now = 10 and fin = 10 and cr = demo_crypt and tmo = None
      and number_size = 5 and c = "Connection (fresh_sock [Inr [0, 0, 0, 0, 9]]) [1] [2] [3]"
      and sa = "snd (conn_settimeout None (fresh_sock [Inr [0, 0, 0, 0, 9]]))"
      and hdr = "[0, 0, 0, 0, 9]"
      and sb = "snd (conn_recv 5 (snd (conn_settimeout None (fresh_sock [Inr [0, 0, 0, 0, 9]]))))"
      and sc = "snd (conn_recv 9 (snd (conn_recv 5 (snd (conn_settimeout None (fresh_sock [Inr [0, 0, 0, 0, 9]]))))))"]
    recv_disconnected [where now = 10 and fin = 10 and cr = demo_crypt and tmo = None
      and number_size = 5 and c = "Connection (fresh_sock []) [1] [2] [3]"
      and sa = "snd (conn_settimeout None (fresh_sock []))"
      and hdr = "[]"
      and sb = "snd (conn_recv 5 (snd (conn_settimeout None (fresh_sock []))))"]
  by (simp add: Connection_def fresh_sock_def conn_settimeout_def conn_recv_def logged_def
      from_bytes_big_def)

text \<open>
  Claim C8. When \<open>recv\<close> raises \<open>UnableToDecrypt\<close> or \<open>InvalidToken\<close>, the socket is
  not closed: the only socket calls made are the timeout setting and the two reads, and the
  tokens, the key, the timestamp and the cooldown of the connection are as before.
\<close>

theorem recv_content_failure_keeps_connection:
  assumes "fst (recv cr tmo number_size now fin c) = Inl UnableToDecrypt \<or>
           fst (recv cr tmo number_size now fin c) = Inl InvalidToken"
  shows "\<not> is_closed (conn (snd (recv cr tmo number_size now fin c))) \<and>
         (\<exists>hdr. calls (conn (snd (recv cr tmo number_size now fin c)))
            = calls (conn c) @ [Settimeout tmo, Recv number_size, Recv (int (from_bytes_big hdr))]) \<and>
         client_token (snd (recv cr tmo number_size now fin c)) = client_token c \<and>
         server_token (snd (recv cr tmo number_size now fin c)) = server_token c \<and>
         aes_key (snd (recv cr tmo number_size now fin c)) = aes_key c \<and>
         last_query (snd (recv cr tmo number_size now fin c)) = last_query c \<and>
         query_cooldown (snd (recv cr tmo number_size now fin c)) = query_cooldown c"
proof -
  have nc: "\<not> now - last_query c < query_cooldown c"
    using assms by (auto simp: recv_def)
  obtain r1 s1 where r1: "conn_settimeout tmo (conn c) = (r1, s1)" by (cases "conn_settimeout tmo (conn c)")
  obtain u where u: "r1 = Inr u"
    using assms nc r1 conn_settimeout_error [of tmo "conn c" _ s1]
    by (cases r1) (auto simp: recv_def)
  from conn_settimeout_ok r1 u have s1: "\<not> is_closed (conn c)"
    "s1 = (conn c)\<lparr>calls := calls (conn c) @ [Settimeout tmo], timeout := tmo\<rparr>" by blast+
  obtain r2 s2 where r2: "conn_recv number_size s1 = (r2, s2)" by (cases "conn_recv number_size s1")
  obtain hdr where hdr: "r2 = Inr hdr"
    using assms nc r1 u r2 conn_recv_error [of number_size s1 _ s2]
    by (cases r2) (auto simp: recv_def)
  obtain r3 s3 where r3: "conn_recv (int (from_bytes_big hdr)) s2 = (r3, s3)"
    by (cases "conn_recv (int (from_bytes_big hdr)) s2")
  obtain msg where msg: "r3 = Inr msg"
    using assms nc r1 u r2 hdr r3 conn_recv_error [of "int (from_bytes_big hdr)" s2 _ s3]
    by (cases r3) (auto simp: recv_def)
  have f2: "is_closed s2 = is_closed s1" "calls s2 = calls s1 @ [Recv number_size]"
    using conn_recv_frame [OF r2] by simp_all
  have f3: "is_closed s3 = is_closed s2" "calls s3 = calls s2 @ [Recv (int (from_bytes_big hdr))]"
    using conn_recv_frame [OF r3] by simp_all
  have res: "snd (recv cr tmo number_size now fin c) = c\<lparr>conn := s3\<rparr>"
    using assms nc r1 u r2 hdr r3 msg
    by (auto simp: recv_def split: if_splits sum.splits option.splits)
  show ?thesis
    unfolding res using s1 f2 f3 by auto
qed


theorem recv_content_failure_keeps_connection_witness:
  "fst (recv demo_crypt None 5 10 10 (Connection (fresh_sock [Inr [0, 0, 0, 0, 1, 7]]) [1] [2] [3]))
     = Inl UnableToDecrypt \<and>
   \<not> is_closed (conn (snd (recv demo_crypt None 5 10 10
      (Connection (fresh_sock [Inr [0, 0, 0, 0, 1, 7]]) [1] [2] [3])))) \<and>
   aes_key (snd (recv demo_crypt None 5 10 10
      (Connection (fresh_sock [Inr [0, 0, 0, 0, 1, 7]]) [1] [2] [3]))) = [3]"
proof -
  have h: "fst (recv demo_crypt None 5 10 10 (Connection (fresh_sock [Inr [0, 0, 0, 0, 1, 7]]) [1] [2] [3]))
     = Inl UnableToDecrypt"
    by (simp add: recv_def Connection_def fresh_sock_def conn_settimeout_def conn_recv_def
        logged_def from_bytes_big_def demo_crypt_def demo_decrypt_def mask_def)
  from recv_content_failure_keeps_connection [of demo_crypt None 5 10 10
      "Connection (fresh_sock [Inr [0, 0, 0, 0, 1, 7]]) [1] [2] [3]"] h
  show ?thesis by (simp add: Connection_def)
qed


section \<open>Connections whose cooldown was never set\<close>

lemma recv_fields:
  "query_cooldown (snd (recv cr tmo number_size now fin c)) = query_cooldown c \<and>
   (last_query (snd (recv cr tmo number_size now fin c)) = last_query c \<or>
    last_query (snd (recv cr tmo number_size now fin c)) = fin)"
  by (simp add: recv_def close_def split: prod.splits sum.splits option.splits)

lemma send_fields:
  "query_cooldown (snd (send cr msg number_size ent c)) = query_cooldown c \<and>
   last_query (snd (send cr msg number_size ent c)) = last_query c"
  by (simp add: send_def close_def split: prod.splits sum.splits option.splits)

lemma recv_not_TooManyQueries:
  "\<not> now - last_query c < query_cooldown c \<Longrightarrow>
     fst (recv cr tmo number_size now fin c) \<noteq> Inl TooManyQueries"
  by (auto simp: recv_def split: prod.splits sum.splits option.splits if_splits
        dest: conn_settimeout_error conn_recv_error)

lemma run_invariant:
  "query_cooldown c \<le> 0 \<Longrightarrow> last_query c \<le> t \<Longrightarrow>
   clock_ok t (ops @ [Op_recv tmo number_size now fin]) \<Longrightarrow> never_positive ops \<Longrightarrow>
     query_cooldown (run cr ops c) \<le> 0 \<and> last_query (run cr ops c) \<le> now"
proof (induction ops arbitrary: c t)
  case Nil
  then show ?case by (simp add: run_def)
next
  case (Cons a ops)
  show ?case
  proof (cases a)
    case (Op_recv tmo' ns' now' fin')
    have "query_cooldown (step cr c a) \<le> 0" "last_query (step cr c a) \<le> fin'"
      using Cons.prems Op_recv recv_fields [of cr tmo' ns' now' fin' c] by auto
    moreover have "clock_ok fin' (ops @ [Op_recv tmo number_size now fin])" "never_positive ops"
      using Cons.prems Op_recv by auto
    ultimately show ?thesis using Cons.IH [of "step cr c a" fin'] by (simp add: run_def)
  next
    case (Op_send msg ns' ent)
    have "query_cooldown (step cr c a) \<le> 0" "last_query (step cr c a) \<le> t"
      using Cons.prems Op_send send_fields [of cr msg ns' ent c] by auto
    moreover have "clock_ok t (ops @ [Op_recv tmo number_size now fin])" "never_positive ops"
      using Cons.prems Op_send by auto
    ultimately show ?thesis using Cons.IH [of "step cr c a" t] by (simp add: run_def)
  next
    case (Op_set_query_cooldown cd)
    have "query_cooldown (step cr c a) \<le> 0" "last_query (step cr c a) \<le> t"
      using Cons.prems Op_set_query_cooldown by (auto simp: set_query_cooldown_def)
    moreover have "clock_ok t (ops @ [Op_recv tmo number_size now fin])" "never_positive ops"
      using Cons.prems Op_set_query_cooldown by auto
    ultimately show ?thesis using Cons.IH [of "step cr c a" t] by (simp add: run_def)
  next
    case Op_close
    have "query_cooldown (step cr c a) \<le> 0" "last_query (step cr c a) \<le> t"
      using Cons.prems Op_close by (auto simp: close_def)
    moreover have "clock_ok t (ops @ [Op_recv tmo number_size now fin])" "never_positive ops"
      using Cons.prems Op_close by auto
    ultimately show ?thesis using Cons.IH [of "step cr c a" t] by (simp add: run_def)
  qed
qed

text \<open>
  Claim C10, as amended. A freshly constructed \<open>Connection\<close> has timestamp 0 and
  cooldown 0. After any run of calls in which \<open>set_query_cooldown\<close> never gets a positive
  value, \<open>recv\<close> does not raise \<open>TooManyQueries\<close>, provided the readings of the clock
  start at 0 or later and never decrease.
\<close>

theorem fresh_connection_never_cooled:
  "last_query (Connection s ctok stok key) = 0 \<and>
   query_cooldown (Connection s ctok stok key) = 0 \<and>
   (never_positive ops \<and> clock_ok 0 (ops @ [Op_recv tmo number_size now fin]) \<longrightarrow>
      fst (recv cr tmo number_size now fin (run cr ops (Connection s ctok stok key)))
        \<noteq> Inl TooManyQueries)"
proof (intro conjI impI)
  assume h: "never_positive ops \<and> clock_ok 0 (ops @ [Op_recv tmo number_size now fin])"
  have "query_cooldown (run cr ops (Connection s ctok stok key)) \<le> 0 \<and>
        last_query (run cr ops (Connection s ctok stok key)) \<le> now"
    using h run_invariant [of "Connection s ctok stok key" 0 ops tmo number_size now fin cr]
    by (simp add: Connection_def)
  then show "fst (recv cr tmo number_size now fin (run cr ops (Connection s ctok stok key)))
        \<noteq> Inl TooManyQueries"
    by (intro recv_not_TooManyQueries) linarith
qed (simp_all add: Connection_def)


theorem fresh_connection_never_cooled_witness:
  "never_positive [Op_set_query_cooldown 0, Op_recv None 5 100 101] \<and>
   clock_ok 0 ([Op_set_query_cooldown 0, Op_recv None 5 100 101] @ [Op_recv None 5 150 150]) \<and>
   fst (recv demo_crypt None 5 150 150
     (run demo_crypt [Op_set_query_cooldown 0, Op_recv None 5 100 101]
        (Connection (fresh_sock []) [1] [2] [3]))) \<noteq> Inl TooManyQueries"
  using fresh_connection_never_cooled [of "fresh_sock []" "[1]" "[2]" "[3]"
      "[Op_set_query_cooldown 0, Op_recv None 5 100 101]" None 5 150 150 demo_crypt]
  by simp

text \<open>
  Claim C10 as stated fails when the clock is set back: after a receive that succeeded at
  time 100, on a connection whose cooldown was never set, a \<open>recv\<close> at clock reading 50
  finds \<open>50 - 100 < 0\<close> and raises \<open>TooManyQueries\<close>.
\<close>

theorem never_cooled_counterexample:
  "never_positive [Op_recv None 5 100 100] \<and>
   fst (recv demo_crypt None 5 100 100
     (Connection (fresh_sock [Inr [0, 0, 0, 0, 5, 0x59, 0x58, 0x18, 0x58, 0x18]]) [1] [2] [3]))
     = Inr [65] \<and>
   fst (recv demo_crypt None 5 50 50
     (run demo_crypt [Op_recv None 5 100 100]
        (Connection (fresh_sock [Inr [0, 0, 0, 0, 5, 0x59, 0x58, 0x18, 0x58, 0x18]]) [1] [2] [3])))
     = Inl TooManyQueries"
  by (simp add: run_def recv_def Connection_def fresh_sock_def conn_settimeout_def conn_recv_def
      logged_def from_bytes_big_def demo_crypt_def demo_decrypt_def mask_def utf8_decode_def)

section \<open>The token prefix\<close>

lemma remove_first_prefix:
  "take (length old) xs = old \<Longrightarrow> remove_first old xs = drop (length old) xs"
  by (cases xs) auto

text \<open>
  Claim C4, as amended. After a successful decryption: a plaintext whose prefix of the
  token's length differs from the client token makes \<open>recv\<close> raise \<open>InvalidToken\<close>, the
  timestamp untouched. Otherwise what \<open>replace\<close> removes is exactly that prefix, also when
  the token occurs again later, the timestamp is updated, and \<open>recv\<close> returns the
  remainder decoded as UTF-8, or raises the decoding error when it is not valid UTF-8.
\<close>

theorem recv_token_check:
  assumes "\<not> now - last_query c < query_cooldown c"
    and "conn_settimeout tmo (conn c) = (Inr (), sa)"
    and "conn_recv number_size sa = (Inr hdr, sb)"
    and "conn_recv (int (from_bytes_big hdr)) sb = (Inr msg, sc)"
    and "msg \<noteq> []"
    and "decrypt_aes cr msg (aes_key c) = Inr plain"
  shows "(take (length (client_token c)) plain \<noteq> client_token c \<longrightarrow>
            recv cr tmo number_size now fin c = (Inl InvalidToken, c\<lparr>conn := sc\<rparr>)) \<and>
         (take (length (client_token c)) plain = client_token c \<longrightarrow>
            remove_first (client_token c) plain = drop (length (client_token c)) plain \<and>
            plain = client_token c @ drop (length (client_token c)) plain \<and>
            recv cr tmo number_size now fin c
              = (case utf8_decode (drop (length (client_token c)) plain) of
                   None \<Rightarrow> Inl UnicodeDecodeError
                 | Some txt \<Rightarrow> Inr txt,
                 c\<lparr>conn := sc, last_query := fin\<rparr>))"
proof (intro conjI impI)
  assume "take (length (client_token c)) plain \<noteq> client_token c"
  with assms show "recv cr tmo number_size now fin c = (Inl InvalidToken, c\<lparr>conn := sc\<rparr>)"
    by (auto simp: recv_def)
next
  assume h: "take (length (client_token c)) plain = client_token c"
  then show r: "remove_first (client_token c) plain = drop (length (client_token c)) plain"
    by (rule remove_first_prefix)
  from h show "plain = client_token c @ drop (length (client_token c)) plain"
    by (metis append_take_drop_id)
  from assms h r show "recv cr tmo number_size now fin c
              = (case utf8_decode (drop (length (client_token c)) plain) of
                   None \<Rightarrow> Inl UnicodeDecodeError
                 | Some txt \<Rightarrow> Inr txt,
                 c\<lparr>conn := sc, last_query := fin\<rparr>)"
    by (simp add: recv_def split: option.splits)
qed

text \<open>
  Claim C4 as stated fails on a remainder that is not valid UTF-8: the plaintext is the
  token \<open>01\<close> followed by the byte \<open>FF\<close>; the prefix matches, and \<open>recv\<close> raises
  \<open>UnicodeDecodeError\<close> instead of returning the remainder.
\<close>

theorem recv_returns_remainder_counterexample:
  "decrypt_aes demo_crypt [0x59, 0x58, 0xA6, 0x58, 0xA6] [3] = Inr [1, 0xFF] \<and>
   fst (recv demo_crypt None 5 10 10
     (Connection (fresh_sock [Inr [0, 0, 0, 0, 5, 0x59, 0x58, 0xA6, 0x58, 0xA6]]) [1] [2] [3]))
     = Inl UnicodeDecodeError"
  by (simp add: recv_def Connection_def fresh_sock_def conn_settimeout_def conn_recv_def
      logged_def from_bytes_big_def demo_crypt_def demo_decrypt_def mask_def utf8_decode_def)


theorem recv_token_check_witness:
  "fst (recv demo_crypt None 5 10 20 (Connection (fresh_sock [Inr [0, 0, 0, 0, 5, 0x59, 0x58, 0x18, 0x58, 0x18]]) [1] [2] [3])) = Inr [65] \<and>
   last_query (snd (recv demo_crypt None 5 10 20 (Connection (fresh_sock [Inr [0, 0, 0, 0, 5, 0x59, 0x58, 0x18, 0x58, 0x18]]) [1] [2] [3]))) = 20 \<and>
   fst (recv demo_crypt None 5 10 20 (Connection (fresh_sock [Inr [0, 0, 0, 0, 5, 0x59, 0x58, 0x18, 0x58, 0x18]]) [9] [2] [3])) = Inl InvalidToken"
  using recv_token_check [where now = 10 and fin = 20 and cr = demo_crypt and tmo = None
      and number_size = 5 and c = "Connection (fresh_sock [Inr [0, 0, 0, 0, 5, 0x59, 0x58, 0x18, 0x58, 0x18]]) [1] [2] [3]"
      and sa = "snd (conn_settimeout None (fresh_sock [Inr [0, 0, 0, 0, 5, 0x59, 0x58, 0x18, 0x58, 0x18]]))"
      and hdr = "[0, 0, 0, 0, 5]"
      and sb = "snd (conn_recv 5 (snd (conn_settimeout None (fresh_sock [Inr [0, 0, 0, 0, 5, 0x59, 0x58, 0x18, 0x58, 0x18]]))))"
      and msg = "[0x59, 0x58, 0x18, 0x58, 0x18]"
      and sc = "snd (conn_recv 5 (snd (conn_recv 5 (snd (conn_settimeout None (fresh_sock [Inr [0, 0, 0, 0, 5, 0x59, 0x58, 0x18, 0x58, 0x18]]))))))"
      and plain = "[1, 65]"]
    recv_token_check [where now = 10 and fin = 20 and cr = demo_crypt and tmo = None
      and number_size = 5 and c = "Connection (fresh_sock [Inr [0, 0, 0, 0, 5, 0x59, 0x58, 0x18, 0x58, 0x18]]) [9] [2] [3]"
      and sa = "snd (conn_settimeout None (fresh_sock [Inr [0, 0, 0, 0, 5, 0x59, 0x58, 0x18, 0x58, 0x18]]))"
      and hdr = "[0, 0, 0, 0, 5]"
      and sb = "snd (conn_recv 5 (snd (conn_settimeout None (fresh_sock [Inr [0, 0, 0, 0, 5, 0x59, 0x58, 0x18, 0x58, 0x18]]))))"
      and msg = "[0x59, 0x58, 0x18, 0x58, 0x18]"
      and sc = "snd (conn_recv 5 (snd (conn_recv 5 (snd (conn_settimeout None (fresh_sock [Inr [0, 0, 0, 0, 5, 0x59, 0x58, 0x18, 0x58, 0x18]]))))))"
      and plain = "[1, 65]"]
  by (simp add: Connection_def fresh_sock_def conn_settimeout_def conn_recv_def logged_def
      from_bytes_big_def demo_crypt_def demo_decrypt_def mask_def utf8_decode_def)


section \<open>What \<open>recv\<close> reads\<close>

lemma conn_recv_length: "conn_recv n s = (Inr bs, s') \<Longrightarrow> length bs \<le> nat n"
  by (auto simp: conn_recv_def Let_def split: if_splits list.splits sum.splits)

lemma unread_logged: "unread (logged x s) = unread s"
  by (simp add: unread_def logged_def)

lemma conn_recv_unread:
  "conn_recv n s = (r, s') \<Longrightarrow>
     unread s' = drop (case r of Inl e \<Rightarrow> 0 | Inr bs \<Rightarrow> length bs) (unread s)"
  by (auto simp: conn_recv_def unread_def logged_def Let_def
      split: if_splits list.splits sum.splits)

lemma close_unread: "unread (conn (close c)) = unread (conn c)"
  by (simp add: close_def conn_close_def conn_shutdown_def logged_def unread_def)

lemma conn_recv_arrived:
  assumes "\<not> is_closed s" and "0 \<le> n" and "pending s = Inr bs # rest" and "nat n < length bs"
  shows "conn_recv n s
    = (Inr (take (nat n) bs), (logged (Recv n) s)\<lparr>pending := Inr (drop (nat n) bs) # rest\<rparr>)"
  using assms by (auto simp: conn_recv_def Let_def)

lemma conn_recv_arrived_all:
  assumes "\<not> is_closed s" and "0 \<le> n" and "pending s = Inr bs # rest"
    and "bs \<noteq> []" and "length bs \<le> nat n"
  shows "conn_recv n s = (Inr bs, (logged (Recv n) s)\<lparr>pending := rest\<rparr>)"
  using assms by (auto simp: conn_recv_def Let_def)

text \<open>What \<open>recv\<close> does with a payload that has been read.\<close>

lemma recv_after_reads:
  assumes "\<not> now - last_query c < query_cooldown c"
    and "conn_settimeout tmo (conn c) = (Inr u, sa)"
    and "conn_recv number_size sa = (Inr hdr, sb)"
    and "conn_recv (int (from_bytes_big hdr)) sb = (Inr msg, sc)"
    and "msg \<noteq> []"
  shows "recv cr tmo number_size now fin c =
    (case decrypt_aes cr msg (aes_key c) of
       Inl e \<Rightarrow> (Inl UnableToDecrypt, c\<lparr>conn := sc\<rparr>)
     | Inr plain \<Rightarrow>
        if client_token c = take (length (client_token c)) plain then
          (case utf8_decode (remove_first (client_token c) plain) of
             None \<Rightarrow> (Inl UnicodeDecodeError, c\<lparr>conn := sc, last_query := fin\<rparr>)
           | Some txt \<Rightarrow> (Inr txt, c\<lparr>conn := sc, last_query := fin\<rparr>))
        else (Inl InvalidToken, c\<lparr>conn := sc\<rparr>))"
  using assms by (simp add: recv_def)

lemma recv_after_reads_conn:
  assumes "\<not> now - last_query c < query_cooldown c"
    and "conn_settimeout tmo (conn c) = (Inr u, sa)"
    and "conn_recv number_size sa = (Inr hdr, sb)"
    and "conn_recv (int (from_bytes_big hdr)) sb = (Inr msg, sc)"
    and "msg \<noteq> []"
  shows "conn (snd (recv cr tmo number_size now fin c)) = sc"
  using assms by (simp add: recv_def split: sum.splits option.splits)

lemma recv_calls_after_header:
  assumes "\<not> now - last_query c < query_cooldown c"
    and "conn_settimeout tmo (conn c) = (Inr u, sa)"
    and "conn_recv number_size sa = (Inr hdr, sb)"
  shows "\<exists>rest. calls (conn (snd (recv cr tmo number_size now fin c)))
           = calls (conn c) @ [Settimeout tmo, Recv number_size, Recv (int (from_bytes_big hdr))] @ rest
         \<and> (rest = [] \<or> rest = [Shutdown, Close])"
proof -
  have c1: "calls sa = calls (conn c) @ [Settimeout tmo]"
    using conn_settimeout_calls [of tmo "conn c"] assms(2) by simp
  have c2: "calls sb = calls sa @ [Recv number_size]"
    using conn_recv_frame [OF assms(3)] by simp
  obtain r3 sc where r3: "conn_recv (int (from_bytes_big hdr)) sb = (r3, sc)"
    by (cases "conn_recv (int (from_bytes_big hdr)) sb")
  have c3: "calls sc = calls sb @ [Recv (int (from_bytes_big hdr))]"
    using conn_recv_frame [OF r3] by simp
  show ?thesis using assms r3 c1 c2 c3
    by (cases r3) (simp_all add: recv_def close_calls split: sum.splits option.splits)
qed

text \<open>
  Claim C5, as amended. A \<open>recv\<close> that has passed the cooldown check and set the timeout
  asks the socket once for \<open>number_size\<close> bytes and, when bytes come back, once for as many
  bytes as their big-endian value; each read returns at most what was asked for, and the
  bytes taken from the transport are the bytes these two reads returned. When the frame
  has arrived in full (at least \<open>number_size\<close> bytes and the ciphertext they announce),
  these are exactly the \<open>number_size\<close> bytes of the prefix and exactly the announced number
  of ciphertext bytes, no call besides the two reads follows, and the decryption is applied
  to exactly that ciphertext.
\<close>

theorem recv_reads:
  assumes "\<not> now - last_query c < query_cooldown c"
    and "conn_settimeout tmo (conn c) = (Inr (), sa)"
  shows "(conn_recv number_size sa = (Inr hdr, sb) \<longrightarrow>
            length hdr \<le> nat number_size \<and>
            take 3 (drop (length (calls (conn c))) (calls (conn (snd (recv cr tmo number_size now fin c)))))
              = [Settimeout tmo, Recv number_size, Recv (int (from_bytes_big hdr))] \<and>
            (conn_recv (int (from_bytes_big hdr)) sb = (Inr msg, sc) \<longrightarrow>
               length msg \<le> from_bytes_big hdr \<and>
               unread (conn (snd (recv cr tmo number_size now fin c)))
                 = drop (length hdr + length msg) (unread (conn c)))) \<and>
         (0 \<le> number_size \<and> pending (conn c) = Inr bs # rest \<and>
          0 < from_bytes_big (take (nat number_size) bs) \<and>
          nat number_size + from_bytes_big (take (nat number_size) bs) \<le> length bs \<longrightarrow>
            calls (conn (snd (recv cr tmo number_size now fin c)))
              = calls (conn c) @ [Settimeout tmo, Recv number_size,
                                  Recv (int (from_bytes_big (take (nat number_size) bs)))] \<and>
            unread (conn (snd (recv cr tmo number_size now fin c)))
              = drop (nat number_size + from_bytes_big (take (nat number_size) bs)) (unread (conn c)) \<and>
            (fst (recv cr tmo number_size now fin c) = Inl UnableToDecrypt \<longleftrightarrow>
               isl (decrypt_aes cr
                     (take (from_bytes_big (take (nat number_size) bs)) (drop (nat number_size) bs))
                     (aes_key c))))"
proof (intro conjI impI)
  assume h: "conn_recv number_size sa = (Inr hdr, sb)"
  show "length hdr \<le> nat number_size" using conn_recv_length [OF h] .
  from recv_calls_after_header [OF assms(1) assms(2) h, of cr fin]
  show "take 3 (drop (length (calls (conn c))) (calls (conn (snd (recv cr tmo number_size now fin c)))))
              = [Settimeout tmo, Recv number_size, Recv (int (from_bytes_big hdr))]"
    by auto
  assume k: "conn_recv (int (from_bytes_big hdr)) sb = (Inr msg, sc)"
  show "length msg \<le> from_bytes_big hdr" using conn_recv_length [OF k] by simp
  have u0: "unread sa = unread (conn c)"
    using conn_settimeout_ok [OF assms(2)] by (simp add: unread_def)
  have u1: "unread sb = drop (length hdr) (unread sa)" using conn_recv_unread [OF h] by simp
  have u2: "unread sc = drop (length msg) (unread sb)" using conn_recv_unread [OF k] by simp
  have "unread (conn (snd (recv cr tmo number_size now fin c))) = unread sc"
  proof (cases "msg = []")
    case True
    then show ?thesis using assms h k by (simp add: recv_def close_unread)
  next
    case False
    then show ?thesis using recv_after_reads_conn [OF assms(1) assms(2) h k] by simp
  qed
  then show "unread (conn (snd (recv cr tmo number_size now fin c)))
                 = drop (length hdr + length msg) (unread (conn c))"
    using u0 u1 u2 by (simp add: add.commute)
next
  assume f: "0 \<le> number_size \<and> pending (conn c) = Inr bs # rest \<and>
          0 < from_bytes_big (take (nat number_size) bs) \<and>
          nat number_size + from_bytes_big (take (nat number_size) bs) \<le> length bs"
  define L where "L = from_bytes_big (take (nat number_size) bs)"
  have sa: "\<not> is_closed sa" "pending sa = Inr bs # rest"
    using conn_settimeout_ok [OF assms(2)] f by simp_all
  have h: "conn_recv number_size sa
      = (Inr (take (nat number_size) bs),
         (logged (Recv number_size) sa)\<lparr>pending := Inr (drop (nat number_size) bs) # rest\<rparr>)"
    using conn_recv_arrived [of sa number_size bs rest] sa f by simp
  let ?sb = "(logged (Recv number_size) sa)\<lparr>pending := Inr (drop (nat number_size) bs) # rest\<rparr>"
  have sb: "\<not> is_closed ?sb" "pending ?sb = Inr (drop (nat number_size) bs) # rest"
    using sa by (simp_all add: logged_def)
  have "\<exists>sc. conn_recv (int L) ?sb = (Inr (take L (drop (nat number_size) bs)), sc)"
  proof (cases "L < length (drop (nat number_size) bs)")
    case True
    then show ?thesis using conn_recv_arrived [of ?sb "int L" "drop (nat number_size) bs" rest] sb
      by simp
  next
    case False
    then have "length (drop (nat number_size) bs) = L" using f unfolding L_def by auto
    moreover have "drop (nat number_size) bs \<noteq> []" using f by auto
    ultimately show ?thesis
      using conn_recv_arrived_all [of ?sb "int L" "drop (nat number_size) bs" rest] sb by simp
  qed
  then obtain sc where k: "conn_recv (int L) ?sb = (Inr (take L (drop (nat number_size) bs)), sc)"
    by blast
  have ne: "take L (drop (nat number_size) bs) \<noteq> []" using f by (auto simp: L_def)
  have k': "conn_recv (int (from_bytes_big (take (nat number_size) bs))) ?sb
      = (Inr (take L (drop (nat number_size) bs)), sc)" using k by (simp add: L_def)
  have cs: "calls sc = calls (conn c) @ [Settimeout tmo, Recv number_size, Recv (int L)]"
    using conn_recv_frame [OF k] conn_recv_frame [OF h] conn_settimeout_calls [of tmo "conn c"] assms(2)
    by simp
  have cn: "conn (snd (recv cr tmo number_size now fin c)) = sc"
    using recv_after_reads_conn [OF assms(1) assms(2) h k' ne] .
  show "calls (conn (snd (recv cr tmo number_size now fin c)))
              = calls (conn c) @ [Settimeout tmo, Recv number_size,
                                  Recv (int (from_bytes_big (take (nat number_size) bs)))]"
    using cn cs by (simp add: L_def)
  have u0: "unread sa = unread (conn c)"
    using conn_settimeout_ok [OF assms(2)] by (simp add: unread_def)
  have "unread sc = drop (length (take L (drop (nat number_size) bs))) (unread ?sb)"
    using conn_recv_unread [OF k] by simp
  moreover have "unread ?sb = drop (length (take (nat number_size) bs)) (unread sa)"
    using conn_recv_unread [OF h] by simp
  moreover have "length (take L (drop (nat number_size) bs)) = L" using f by (auto simp: L_def)
  moreover have "length (take (nat number_size) bs) = nat number_size" using f by auto
  ultimately show "unread (conn (snd (recv cr tmo number_size now fin c)))
              = drop (nat number_size + from_bytes_big (take (nat number_size) bs)) (unread (conn c))"
    using cn u0 by (simp add: L_def add.commute)
  show "fst (recv cr tmo number_size now fin c) = Inl UnableToDecrypt \<longleftrightarrow>
               isl (decrypt_aes cr
                     (take (from_bytes_big (take (nat number_size) bs)) (drop (nat number_size) bs))
                     (aes_key c))"
    using recv_after_reads [OF assms(1) assms(2) h k' ne, of cr fin]
    by (auto simp: L_def split: sum.splits option.splits)
qed


theorem recv_reads_witness:
  "calls (conn (snd (recv demo_crypt None 5 10 10 (Connection (fresh_sock [Inr [0, 0, 0, 0, 5, 0x59, 0x58, 0x18, 0x58, 0x18]]) [1] [2] [3]))))
     = [Settimeout None, Recv 5, Recv 5] \<and>
   unread (conn (snd (recv demo_crypt None 5 10 10 (Connection (fresh_sock [Inr [0, 0, 0, 0, 5, 0x59, 0x58, 0x18, 0x58, 0x18]]) [1] [2] [3])))) = [] \<and>
   fst (recv demo_crypt None 5 10 10 (Connection (fresh_sock [Inr [0, 0, 0, 0, 5, 0x59, 0x58, 0x18, 0x58, 0x18]]) [1] [2] [3])) \<noteq> Inl UnableToDecrypt"
  using recv_reads [where now = 10 and fin = 10 and cr = demo_crypt and tmo = None
      and number_size = 5 and c = "Connection (fresh_sock [Inr [0, 0, 0, 0, 5, 0x59, 0x58, 0x18, 0x58, 0x18]]) [1] [2] [3]"
      and sa = "snd (conn_settimeout None (fresh_sock [Inr [0, 0, 0, 0, 5, 0x59, 0x58, 0x18, 0x58, 0x18]]))"
      and hdr = "[0, 0, 0, 0, 5]"
      and sb = "snd (conn_recv 5 (snd (conn_settimeout None (fresh_sock [Inr [0, 0, 0, 0, 5, 0x59, 0x58, 0x18, 0x58, 0x18]]))))"
      and msg = "[0x59, 0x58, 0x18, 0x58, 0x18]"
      and sc = "snd (conn_recv 5 (snd (conn_recv 5 (snd (conn_settimeout None (fresh_sock [Inr [0, 0, 0, 0, 5, 0x59, 0x58, 0x18, 0x58, 0x18]]))))))"
      and bs = "[0, 0, 0, 0, 5, 0x59, 0x58, 0x18, 0x58, 0x18]" and rest = "[]"]
  by (simp add: Connection_def fresh_sock_def conn_settimeout_def conn_recv_def logged_def
      from_bytes_big_def demo_crypt_def demo_decrypt_def mask_def unread_def)

text \<open>
  Claim C5 as stated fails on a transport that delivers fewer bytes than asked for: the
  prefix announces 5 bytes of ciphertext, of which 2 have arrived; the second read returns
  these 2, \<open>recv\<close> decrypts them and raises \<open>UnableToDecrypt\<close>, and the other 3 bytes of
  the frame stay unread.
\<close>

theorem recv_short_read_counterexample:
  "fst (conn_recv 5 (snd (conn_recv 5 (snd (conn_settimeout None (fresh_sock [Inr [0, 0, 0, 0, 5, 0x59, 0x58], Inr [0x18, 0x58, 0x18]]))))))
     = Inr [0x59, 0x58] \<and>
   fst (recv demo_crypt None 5 10 10 (Connection (fresh_sock [Inr [0, 0, 0, 0, 5, 0x59, 0x58], Inr [0x18, 0x58, 0x18]]) [1] [2] [3])) = Inl UnableToDecrypt \<and>
   calls (conn (snd (recv demo_crypt None 5 10 10 (Connection (fresh_sock [Inr [0, 0, 0, 0, 5, 0x59, 0x58], Inr [0x18, 0x58, 0x18]]) [1] [2] [3]))))
     = [Settimeout None, Recv 5, Recv 5] \<and>
   unread (conn (snd (recv demo_crypt None 5 10 10 (Connection (fresh_sock [Inr [0, 0, 0, 0, 5, 0x59, 0x58], Inr [0x18, 0x58, 0x18]]) [1] [2] [3]))))
     = [0x18, 0x58, 0x18]"
  by (simp add: recv_def Connection_def fresh_sock_def conn_settimeout_def conn_recv_def logged_def
      from_bytes_big_def demo_crypt_def demo_decrypt_def mask_def unread_def)


section \<open>The handshake\<close>

lemma conn_send_frame:
  "conn_send d s = (r, s') \<Longrightarrow>
     calls s' = calls s @ [Send d] \<and> is_closed s' = is_closed s \<and> pending s' = pending s"
  by (auto simp: conn_send_def logged_def Let_def split: if_splits list.splits option.splits)

lemma get_random_bytes_length:
  "get_random_bytes n ent = (Inr bs, ent') \<Longrightarrow> int (length bs) = n"
  by (auto simp: get_random_bytes_def split: if_splits)

lemma handshake_five_messages:
  assumes "handshake cr claves tunnel_anchor token_size ent s = (Inr v, s')"
  shows "\<exists>trace. five_messages cr claves tunnel_anchor token_size ent s trace v s'"
  using assms
  by (auto simp: handshake_def split: prod.splits sum.splits option.splits
      intro!: five_messages.steps)

lemma five_messages_handshake:
  assumes "five_messages cr claves tunnel_anchor token_size ent s trace v s'"
  shows "handshake cr claves tunnel_anchor token_size ent s = (Inr v, s')"
  using assms by (cases rule: five_messages.cases) (simp add: handshake_def)

lemma five_messages_trace:
  assumes "five_messages cr claves tunnel_anchor token_size ent s trace v s'"
  shows "calls s' = calls s @ trace \<and> int (length (fst (snd v))) = token_size"
  using assms
  by (cases rule: five_messages.cases)
     (auto dest!: conn_send_frame conn_recv_frame get_random_bytes_length)


lemma five_messages_shape:
  assumes "five_messages cr claves tunnel_anchor token_size ent s trace v s'"
  shows "\<exists>pub ca cb. trace = [Send pub, Recv tunnel_anchor, Send ca, Recv tunnel_anchor, Send cb]"
  using assms by (cases rule: five_messages.cases) simp

text \<open>
  Claim C2. Whenever \<open>key_exchange\<close> returns a connection, the five steps of the protocol
  have all succeeded, in their order and on the socket that was passed in: after the
  timeout setting the socket has seen exactly the calls send, receive, send, receive, send
  with the messages of the five steps; the server token has \<open>token_size\<close> bytes; the
  connection holds the client token, the server token and the symmetric key of these
  steps, and that socket. (The symmetric key is generated before the first message; this
  is not visible on the socket.)
\<close>

theorem key_exchange_five_messages:
  assumes "key_exchange cr claves s tmo tunnel_anchor token_size ent = (Inr c, s')"
  shows "\<exists>sa trace tok stok key.
           conn_settimeout tmo s = (Inr (), sa) \<and>
           five_messages cr claves tunnel_anchor token_size ent sa trace (tok, stok, key) s' \<and>
           calls s' = calls s @ Settimeout tmo # trace \<and>
           (\<exists>pub ca cb.
              trace = [Send pub, Recv tunnel_anchor, Send ca, Recv tunnel_anchor, Send cb]) \<and>
           int (length stok) = token_size \<and>
           c = Connection s' tok stok key \<and>
           conn c = s' \<and> client_token c = tok \<and> server_token c = stok \<and> aes_key c = key"
proof -
  obtain r sa where st: "conn_settimeout tmo s = (r, sa)" by (cases "conn_settimeout tmo s")
  from assms st have r: "r = Inr ()" by (cases r) (auto simp: key_exchange_def)
  obtain h s5 where hs: "handshake cr claves tunnel_anchor token_size ent sa = (h, s5)"
    by (cases "handshake cr claves tunnel_anchor token_size ent sa")
  from assms st r hs obtain tok stok key where v: "h = Inr (tok, stok, key)"
    by (cases h) (auto simp: key_exchange_def)
  from assms st r hs v have res: "c = Connection s5 tok stok key" "s' = s5"
    by (auto simp: key_exchange_def)
  from handshake_five_messages hs v obtain trace
    where fm: "five_messages cr claves tunnel_anchor token_size ent sa trace (tok, stok, key) s5"
    by blast
  have "calls s5 = calls sa @ trace" "int (length stok) = token_size"
    using five_messages_trace [OF fm] by simp_all
  moreover have "calls sa = calls s @ [Settimeout tmo]"
    using conn_settimeout_calls [of tmo s] st by simp
  ultimately show ?thesis using st r fm res five_messages_shape [OF fm]
    by (auto simp: Connection_def)
qed

text \<open>
  Claim C3. Once the timeout is set, a run in which the five steps do not all succeed ends
  like this: the \<open>try\<close> block has raised, \<open>key_exchange\<close> closes the socket, with
  \<open>close\<close> as the last call on it, and raises \<open>KeyExchangeFailed\<close>; no connection is
  returned.
\<close>

theorem key_exchange_failure:
  assumes "conn_settimeout tmo s = (Inr (), sa)"
    and "\<not> (\<exists>trace v sf. five_messages cr claves tunnel_anchor token_size ent sa trace v sf)"
  shows "\<exists>e sf. handshake cr claves tunnel_anchor token_size ent sa = (Inl e, sf) \<and>
           key_exchange cr claves s tmo tunnel_anchor token_size ent
             = (Inl KeyExchangeFailed, conn_close sf) \<and>
           is_closed (conn_close sf) \<and>
           calls (conn_close sf) = calls sf @ [Close]"
proof -
  obtain h sf where hs: "handshake cr claves tunnel_anchor token_size ent sa = (h, sf)"
    by (cases "handshake cr claves tunnel_anchor token_size ent sa")
  from assms(2) handshake_five_messages hs obtain e where e: "h = Inl e"
    by (cases h) blast+
  from assms(1) hs e
  have "key_exchange cr claves s tmo tunnel_anchor token_size ent
          = (Inl KeyExchangeFailed, conn_close sf)"
    by (simp add: key_exchange_def)
  then show ?thesis using hs e by (simp add: conn_close_def logged_def)
qed


lemmas demo_run_defs =
  key_exchange_def handshake_def demo_crypt_def demo_claves_def demo_encrypt_def demo_decrypt_def
  mask_def fresh_sock_def conn_settimeout_def conn_send_def conn_recv_def conn_close_def
  logged_def get_random_bytes_def utf8_decode_def Connection_def

theorem key_exchange_five_messages_witness:
  "\<not> isl (fst (key_exchange demo_crypt demo_claves (fresh_sock [Inr [0x5D, 0x1C, 0x1C], Inr [0x5D, 0x54, 0x54]]) None 1024 2 (\<lambda>i. 0))) \<and>
   client_token (projr (fst (key_exchange demo_crypt demo_claves (fresh_sock [Inr [0x5D, 0x1C, 0x1C], Inr [0x5D, 0x54, 0x54]]) None 1024 2 (\<lambda>i. 0)))) = [9] \<and>
   length (server_token (projr (fst (key_exchange demo_crypt demo_claves (fresh_sock [Inr [0x5D, 0x1C, 0x1C], Inr [0x5D, 0x54, 0x54]]) None 1024 2 (\<lambda>i. 0))))) = 2 \<and>
   take 3 (calls (snd (key_exchange demo_crypt demo_claves (fresh_sock [Inr [0x5D, 0x1C, 0x1C], Inr [0x5D, 0x54, 0x54]]) None 1024 2 (\<lambda>i. 0)))) = [Settimeout None, Send [7], Recv 1024]"
proof -
  have e: "key_exchange demo_crypt demo_claves (fresh_sock [Inr [0x5D, 0x1C, 0x1C], Inr [0x5D, 0x54, 0x54]]) None 1024 2 (\<lambda>i. 0) = (Inr (projr (fst (key_exchange demo_crypt demo_claves (fresh_sock [Inr [0x5D, 0x1C, 0x1C], Inr [0x5D, 0x54, 0x54]]) None 1024 2 (\<lambda>i. 0)))), snd (key_exchange demo_crypt demo_claves (fresh_sock [Inr [0x5D, 0x1C, 0x1C], Inr [0x5D, 0x54, 0x54]]) None 1024 2 (\<lambda>i. 0)))"
    by (simp add: demo_run_defs)
  have g: "\<not> isl (fst (key_exchange demo_crypt demo_claves (fresh_sock [Inr [0x5D, 0x1C, 0x1C], Inr [0x5D, 0x54, 0x54]]) None 1024 2 (\<lambda>i. 0))) \<and>
   client_token (projr (fst (key_exchange demo_crypt demo_claves (fresh_sock [Inr [0x5D, 0x1C, 0x1C], Inr [0x5D, 0x54, 0x54]]) None 1024 2 (\<lambda>i. 0)))) = [9] \<and>
   length (server_token (projr (fst (key_exchange demo_crypt demo_claves (fresh_sock [Inr [0x5D, 0x1C, 0x1C], Inr [0x5D, 0x54, 0x54]]) None 1024 2 (\<lambda>i. 0))))) = 2 \<and>
   take 3 (calls (snd (key_exchange demo_crypt demo_claves (fresh_sock [Inr [0x5D, 0x1C, 0x1C], Inr [0x5D, 0x54, 0x54]]) None 1024 2 (\<lambda>i. 0)))) = [Settimeout None, Send [7], Recv 1024]"
    by (simp add: demo_run_defs)
  from key_exchange_five_messages [OF e] g show ?thesis by blast
qed

theorem key_exchange_failure_witness:
  "key_exchange demo_crypt demo_claves (fresh_sock [Inl TimedOut]) None 1024 2 (\<lambda>i. 0)
     = (Inl KeyExchangeFailed, snd (key_exchange demo_crypt demo_claves (fresh_sock [Inl TimedOut]) None 1024 2 (\<lambda>i. 0))) \<and>
   is_closed (snd (key_exchange demo_crypt demo_claves (fresh_sock [Inl TimedOut]) None 1024 2 (\<lambda>i. 0))) \<and>
   calls (snd (key_exchange demo_crypt demo_claves (fresh_sock [Inl TimedOut]) None 1024 2 (\<lambda>i. 0))) = [Settimeout None, Send [7], Recv 1024, Close]"
proof -
  have st: "conn_settimeout None (fresh_sock [Inl TimedOut])
      = (Inr (), snd (conn_settimeout None (fresh_sock [Inl TimedOut])))"
    by (simp add: demo_run_defs)
  have "fst (handshake demo_crypt demo_claves 1024 2 (\<lambda>i. 0)
          (snd (conn_settimeout None (fresh_sock [Inl TimedOut])))) = Inl Timeout"
    by (simp add: demo_run_defs)
  then have no: "\<not> (\<exists>trace v sf. five_messages demo_crypt demo_claves 1024 2 (\<lambda>i. 0)
          (snd (conn_settimeout None (fresh_sock [Inl TimedOut]))) trace v sf)"
    using five_messages_handshake by fastforce
  have g: "key_exchange demo_crypt demo_claves (fresh_sock [Inl TimedOut]) None 1024 2 (\<lambda>i. 0)
     = (Inl KeyExchangeFailed, snd (key_exchange demo_crypt demo_claves (fresh_sock [Inl TimedOut]) None 1024 2 (\<lambda>i. 0))) \<and>
   is_closed (snd (key_exchange demo_crypt demo_claves (fresh_sock [Inl TimedOut]) None 1024 2 (\<lambda>i. 0))) \<and>
   calls (snd (key_exchange demo_crypt demo_claves (fresh_sock [Inl TimedOut]) None 1024 2 (\<lambda>i. 0))) = [Settimeout None, Send [7], Recv 1024, Close]"
    by (simp add: demo_run_defs)
  from key_exchange_failure [OF st no] g show ?thesis by blast
qed

section \<open>From \<open>send\<close> to \<open>recv\<close>\<close>

subsection \<open>UTF-8: decoding undoes encoding\<close>

lemma unat_byte: "n < 256 \<Longrightarrow> unat (of_nat n :: byte) = n"
  by (simp add: unat_of_nat)

lemma dec_one:
  assumes "unat b < 0x80"
  shows "utf8_dec 0 0 0 0 (b # rest) = map_option ((#) (unat b)) (utf8_dec 0 0 0 0 rest)"
  using assms by simp

lemma dec_two:
  assumes "unat b0 = 0xC0 + q" "2 \<le> q" "q < 32" "unat b1 = 0x80 + r" "r < 64"
  shows "utf8_dec 0 0 0 0 (b0 # b1 # rest) = map_option ((#) (q * 64 + r)) (utf8_dec 0 0 0 0 rest)"
  using assms by simp

lemma dec_three:
  assumes "unat b0 = 0xE0 + a" "a < 16" "unat b1 = 0x80 + x" "x < 64" "unat b2 = 0x80 + y" "y < 64"
    and "a = 0 \<longrightarrow> 32 \<le> x" and "a = 13 \<longrightarrow> x < 32"
  shows "utf8_dec 0 0 0 0 (b0 # b1 # b2 # rest)
           = map_option ((#) ((a * 64 + x) * 64 + y)) (utf8_dec 0 0 0 0 rest)"
  using assms by auto

lemma dec_four:
  assumes "unat b0 = 0xF0 + a" "a \<le> 4" "unat b1 = 0x80 + x" "x < 64" "unat b2 = 0x80 + y" "y < 64"
    and "unat b3 = 0x80 + z" "z < 64"
    and "a = 0 \<longrightarrow> 16 \<le> x" and "a = 4 \<longrightarrow> x < 16"
  shows "utf8_dec 0 0 0 0 (b0 # b1 # b2 # b3 # rest)
           = map_option ((#) (((a * 64 + x) * 64 + y) * 64 + z)) (utf8_dec 0 0 0 0 rest)"
proof -
  consider "a = 0" | "1 \<le> a \<and> a \<le> 3" | "a = 4" using assms(2) by linarith
  then show ?thesis using assms by cases auto
qed

text \<open>A code point in base 64.\<close>

lemma base64_digits:
  fixes c :: nat
  shows "c div 4096 = c div 64 div 64" and "c div 262144 = c div 64 div 64 div 64"
  using div_mult2_eq [of c 64 64] div_mult2_eq [of c 4096 64] by simp_all


lemma encode_cp_decode:
  assumes "encode_cp c = Some bs"
  shows "utf8_dec 0 0 0 0 (bs @ rest) = map_option ((#) c) (utf8_dec 0 0 0 0 rest)"
proof -
  define r where "r = c mod 64"
  define d where "d = c div 64"
  define y where "y = d mod 64"
  define e where "e = d div 64"
  define x where "x = e mod 64"
  define a where "a = e div 64"
  have c: "c = d * 64 + r" and d: "d = e * 64 + y" and e: "e = a * 64 + x"
    by (simp_all add: r_def d_def y_def e_def x_def a_def)
  have lt: "r < 64" "y < 64" "x < 64" by (simp_all add: r_def y_def x_def)
  have digits: "c div 64 = d" "c mod 64 = r" "c div 4096 = e" "c div 262144 = a"
    "d mod 64 = y" "e mod 64 = x"
    by (simp_all add: base64_digits r_def d_def y_def e_def x_def a_def)
  consider (one) "c < 0x80" | (two) "0x80 \<le> c" "c < 0x800"
    | (three) "0x800 \<le> c" "c < 0x10000" "\<not> (0xD800 \<le> c \<and> c < 0xE000)"
    | (four) "0x10000 \<le> c" "c < 0x110000"
    | (none) "(0xD800 \<le> c \<and> c < 0xE000) \<or> 0x110000 \<le> c"
    by linarith
  then show ?thesis
  proof cases
    case one
    then have bs: "bs = [of_nat c]" using assms by (simp add: encode_cp_def)
    have "unat (of_nat c :: byte) = c" using one by (intro unat_byte) simp
    then show ?thesis using one dec_one [of "of_nat c" rest] by (simp add: bs)
  next
    case two
    then have bs: "bs = [of_nat (0xC0 + d), of_nat (0x80 + r)]"
      using assms by (simp add: encode_cp_def digits)
    have q: "2 \<le> d" "d < 32" using two c lt by arith+
    have b0: "unat (of_nat (0xC0 + d) :: byte) = 0xC0 + d" using q by (intro unat_byte) simp
    have b1: "unat (of_nat (0x80 + r) :: byte) = 0x80 + r" using lt by (intro unat_byte) simp
    have "utf8_dec 0 0 0 0 (of_nat (0xC0 + d) # of_nat (0x80 + r) # rest)
        = map_option ((#) (d * 64 + r)) (utf8_dec 0 0 0 0 rest)"
      by (rule dec_two [OF b0 q b1 lt(1)])
    then show ?thesis unfolding bs c [symmetric] by simp
  next
    case three
    then have bs: "bs = [of_nat (0xE0 + e), of_nat (0x80 + y), of_nat (0x80 + r)]"
      using assms by (auto simp: encode_cp_def digits)
    have a: "e < 16" using three c d lt by arith
    have b0: "unat (of_nat (0xE0 + e) :: byte) = 0xE0 + e" using a by (intro unat_byte) simp
    have b1: "unat (of_nat (0x80 + y) :: byte) = 0x80 + y" using lt by (intro unat_byte) simp
    have b2: "unat (of_nat (0x80 + r) :: byte) = 0x80 + r" using lt by (intro unat_byte) simp
    have lo: "e = 0 \<longrightarrow> 32 \<le> y" using three c d lt by arith
    have hi: "e = 13 \<longrightarrow> y < 32" using three c d lt by arith
    have "utf8_dec 0 0 0 0 (of_nat (0xE0 + e) # of_nat (0x80 + y) # of_nat (0x80 + r) # rest)
        = map_option ((#) ((e * 64 + y) * 64 + r)) (utf8_dec 0 0 0 0 rest)"
      by (rule dec_three [OF b0 a b1 lt(2) b2 lt(1) lo hi])
    then show ?thesis unfolding bs d [symmetric] c [symmetric] by simp
  next
    case four
    then have bs: "bs = [of_nat (0xF0 + a), of_nat (0x80 + x), of_nat (0x80 + y), of_nat (0x80 + r)]"
      using assms by (auto simp: encode_cp_def digits)
    have a: "a \<le> 4" using four c d e lt by arith
    have b0: "unat (of_nat (0xF0 + a) :: byte) = 0xF0 + a" using a by (intro unat_byte) simp
    have b1: "unat (of_nat (0x80 + x) :: byte) = 0x80 + x" using lt by (intro unat_byte) simp
    have b2: "unat (of_nat (0x80 + y) :: byte) = 0x80 + y" using lt by (intro unat_byte) simp
    have b3: "unat (of_nat (0x80 + r) :: byte) = 0x80 + r" using lt by (intro unat_byte) simp
    have lo: "a = 0 \<longrightarrow> 16 \<le> x" using four c d e lt by arith
    have hi: "a = 4 \<longrightarrow> x < 16" using four c d e lt by arith
    have "utf8_dec 0 0 0 0 (of_nat (0xF0 + a) # of_nat (0x80 + x) # of_nat (0x80 + y)
            # of_nat (0x80 + r) # rest)
        = map_option ((#) (((a * 64 + x) * 64 + y) * 64 + r)) (utf8_dec 0 0 0 0 rest)"
      by (rule dec_four [OF b0 a b1 lt(3) b2 lt(2) b3 lt(1) lo hi])
    then show ?thesis unfolding bs e [symmetric] d [symmetric] c [symmetric] by simp
  next
    case none
    then show ?thesis using assms by (auto simp: encode_cp_def)
  qed
qed

lemma utf8_roundtrip: "utf8_encode s = Some bs \<Longrightarrow> utf8_decode bs = Some s"
  unfolding utf8_decode_def
proof (induction s arbitrary: bs)
  case Nil
  then show ?case by simp
next
  case (Cons c cs)
  then obtain b r where b: "encode_cp c = Some b" and r: "utf8_encode cs = Some r"
    and bs: "bs = b @ r"
    by (auto split: option.splits)
  show ?case using encode_cp_decode [OF b, of r] Cons.IH [OF r] by (simp add: bs)
qed

subsection \<open>Length prefix and whole frames\<close>

lemma length_be_bytes: "length (be_bytes k n) = k"
  by (induction k arbitrary: n) simp_all

lemma from_bytes_big_snoc: "from_bytes_big (xs @ [b]) = from_bytes_big xs * 256 + unat b"
  by (simp add: from_bytes_big_def)

lemma from_bytes_big_be_bytes: "from_bytes_big (be_bytes k n) = n mod 256 ^ k"
proof (induction k arbitrary: n)
  case 0
  then show ?case by (simp add: from_bytes_big_def)
next
  case (Suc k)
  have "unat (of_nat (n mod 256) :: byte) = n mod 256" by (intro unat_byte) simp
  then have "from_bytes_big (be_bytes (Suc k) n) = (n div 256) mod 256 ^ k * 256 + n mod 256"
    by (simp add: from_bytes_big_snoc Suc.IH)
  also have "\<dots> = n mod 256 ^ Suc k"
    using mod_mult2_eq [of n 256 "256 ^ k"] by simp
  finally show ?case .
qed

lemma to_bytes_big_Inr:
  assumes "to_bytes_big n len = Inr leng"
  shows "0 \<le> len \<and> length leng = nat len \<and> from_bytes_big leng = n"
  using assms
  by (auto simp: to_bytes_big_def length_be_bytes from_bytes_big_be_bytes not_le split: if_splits)

text \<open>A frame that has arrived in full is read whole and its ciphertext decrypted.\<close>

lemma recv_full_frame:
  assumes "\<not> now - last_query c < query_cooldown c"
    and "\<not> is_closed (conn c)" and "\<forall>x. tmo = Some x \<longrightarrow> 0 \<le> x"
    and "0 \<le> number_size" and "length leng = nat number_size"
    and "from_bytes_big leng = length ct" and "ct \<noteq> []"
    and "pending (conn c) = Inr (leng @ ct @ tl_bytes) # rest"
  shows "\<exists>sc. recv cr tmo number_size now fin c =
    (case decrypt_aes cr ct (aes_key c) of
       Inl e \<Rightarrow> (Inl UnableToDecrypt, c\<lparr>conn := sc\<rparr>)
     | Inr plain \<Rightarrow>
        if client_token c = take (length (client_token c)) plain then
          (case utf8_decode (remove_first (client_token c) plain) of
             None \<Rightarrow> (Inl UnicodeDecodeError, c\<lparr>conn := sc, last_query := fin\<rparr>)
           | Some txt \<Rightarrow> (Inr txt, c\<lparr>conn := sc, last_query := fin\<rparr>))
        else (Inl InvalidToken, c\<lparr>conn := sc\<rparr>))"
proof -
  let ?bs = "leng @ ct @ tl_bytes"
  let ?sa = "(conn c)\<lparr>calls := calls (conn c) @ [Settimeout tmo], timeout := tmo\<rparr>"
  have st: "conn_settimeout tmo (conn c) = (Inr (), ?sa)"
    using conn_settimeout_succeeds [OF assms(2) assms(3)] .
  have sa: "\<not> is_closed ?sa" "pending ?sa = Inr ?bs # rest" using assms by simp_all
  let ?sb = "(logged (Recv number_size) ?sa)\<lparr>pending := Inr (drop (nat number_size) ?bs) # rest\<rparr>"
  have "nat number_size < length ?bs" using assms by (cases ct) simp_all
  then have "conn_recv number_size ?sa = (Inr (take (nat number_size) ?bs), ?sb)"
    using conn_recv_arrived [of ?sa number_size ?bs rest] sa assms(4) by simp
  then have h: "conn_recv number_size ?sa = (Inr leng, ?sb)" using assms(5) by simp
  have sb: "\<not> is_closed ?sb" "pending ?sb = Inr (ct @ tl_bytes) # rest"
    using sa assms(5) by (simp_all add: logged_def)
  have "\<exists>sc. conn_recv (int (length ct)) ?sb = (Inr ct, sc)"
  proof (cases "tl_bytes = []")
    case True
    then show ?thesis
      using conn_recv_arrived_all [of ?sb "int (length ct)" "ct @ tl_bytes" rest] sb assms(7) by simp
  next
    case False
    then have "nat (int (length ct)) < length (ct @ tl_bytes)" by (cases tl_bytes) simp_all
    then show ?thesis
      using conn_recv_arrived [of ?sb "int (length ct)" "ct @ tl_bytes" rest] sb by simp
  qed
  then obtain sc where k: "conn_recv (int (from_bytes_big leng)) ?sb = (Inr ct, sc)"
    using assms(6) by auto
  from recv_after_reads [OF assms(1) st h k assms(7), of cr fin] show ?thesis by blast
qed

subsection \<open>Round trip\<close>

lemma send_success:
  assumes "fst (send cr msg number_size ent c) = Inr ()"
  shows "\<exists>enc ct leng sa.
           utf8_encode msg = Some enc \<and>
           fst (encrypt_aes cr (server_token c @ enc) (aes_key c) ent) = Inr ct \<and>
           to_bytes_big (length ct) number_size = Inr leng \<and>
           conn_send (leng @ ct) (conn c) = (Inr (), sa) \<and>
           send cr msg number_size ent c = (Inr (), c\<lparr>conn := sa\<rparr>)"
  using assms
  by (auto simp: send_def split: option.splits sum.splits prod.splits if_splits)

text \<open>
  Claim C1, as amended. Let \<open>send\<close> of the string \<open>P\<close> succeed on one endpoint, writing
  \<open>frame\<close> to its socket. Let the other endpoint hold the same symmetric key and expect the
  sender's token, let decryption under that key undo encryption (with no empty ciphertext),
  and let the cooldown have elapsed. If the whole frame has arrived on the receiver's open
  socket when \<open>recv\<close> reads, so that each of its two reads gets every byte it asks for,
  then \<open>recv\<close> returns exactly \<open>P\<close> and records the time of the receive.
\<close>

theorem send_recv_roundtrip:
  assumes "fst (send cr P number_size ent sender) = Inr ()"
    and "calls (conn (snd (send cr P number_size ent sender))) = calls (conn sender) @ [Send frame]"
    and "\<forall>m ct. fst (encrypt_aes cr m (aes_key sender) ent) = Inr ct \<longrightarrow>
           ct \<noteq> [] \<and> decrypt_aes cr ct (aes_key sender) = Inr m"
    and "aes_key receiver = aes_key sender"
    and "client_token receiver = server_token sender"
    and "pending (conn receiver) = Inr frame # rest"
    and "\<not> is_closed (conn receiver)"
    and "\<forall>x. tmo = Some x \<longrightarrow> 0 \<le> x"
    and "\<not> now - last_query receiver < query_cooldown receiver"
  shows "fst (recv cr tmo number_size now fin receiver) = Inr P \<and>
         last_query (snd (recv cr tmo number_size now fin receiver)) = fin"
proof -
  from send_success [OF assms(1)] obtain enc ct leng sa where
    enc: "utf8_encode P = Some enc" and
    ct: "fst (encrypt_aes cr (server_token sender @ enc) (aes_key sender) ent) = Inr ct" and
    leng: "to_bytes_big (length ct) number_size = Inr leng" and
    sent: "conn_send (leng @ ct) (conn sender) = (Inr (), sa)" and
    res: "send cr P number_size ent sender = (Inr (), sender\<lparr>conn := sa\<rparr>)"
    by blast
  have "calls sa = calls (conn sender) @ [Send (leng @ ct)]"
    using conn_send_frame [OF sent] by simp
  with assms(2) res have frame: "frame = leng @ ct @ []" by simp
  have ne: "ct \<noteq> []" and dec: "decrypt_aes cr ct (aes_key receiver) = Inr (client_token receiver @ enc)"
    using assms(3) ct assms(4) assms(5) by auto
  have l: "0 \<le> number_size" "length leng = nat number_size" "from_bytes_big leng = length ct"
    using to_bytes_big_Inr [OF leng] by simp_all
  have p: "pending (conn receiver) = Inr (leng @ ct @ []) # rest" using assms(6) frame by simp
  have rf: "remove_first (client_token receiver) (client_token receiver @ enc) = enc"
    by (simp add: remove_first_prefix)
  from recv_full_frame [OF assms(9) assms(7) assms(8) l(1) l(2) l(3) ne p, of cr fin]
  show ?thesis using dec rf utf8_roundtrip [OF enc] by auto
qed


lemma demo_decrypt_encrypt: "demo_decrypt (demo_encrypt m k) k = Inr m"
proof -
  have "map (\<lambda>b. b XOR mask k) (map (\<lambda>b. b XOR mask k) m) = m"
    by (induction m) (simp_all add: xor.assoc)
  then show ?thesis by (simp add: demo_decrypt_def demo_encrypt_def)
qed

lemma be5: "be_bytes 5 5 = [0, 0, 0, 0, 5]"
  by code_simp

lemma be5_Suc: "be_bytes 5 (Suc (Suc (Suc (Suc (Suc 0))))) = [0, 0, 0, 0, 5]"
proof -
  have "Suc (Suc (Suc (Suc (Suc 0)))) = (5::nat)" by simp
  then show ?thesis by (simp only: be5)
qed

theorem send_recv_roundtrip_witness:
  "fst (send demo_crypt [65] 5 (\<lambda>i. 0) (Connection (fresh_sock []) [9] [1] [3])) = Inr () \<and>
   calls (conn (snd (send demo_crypt [65] 5 (\<lambda>i. 0) (Connection (fresh_sock []) [9] [1] [3]))))
     = [Send [0, 0, 0, 0, 5, 0x59, 0x58, 0x18, 0x58, 0x18]] \<and>
   fst (recv demo_crypt None 5 10 20 (Connection (fresh_sock [Inr [0, 0, 0, 0, 5, 0x59, 0x58, 0x18, 0x58, 0x18]]) [1] [2] [3])) = Inr [65]"
proof -
  have a: "fst (send demo_crypt [65] 5 (\<lambda>i. 0) (Connection (fresh_sock []) [9] [1] [3])) = Inr ()"
    by (simp add: send_def Connection_def fresh_sock_def demo_crypt_def demo_encrypt_def mask_def
        encode_cp_def to_bytes_big_def conn_send_def logged_def be5_Suc)
  have b: "calls (conn (snd (send demo_crypt [65] 5 (\<lambda>i. 0) (Connection (fresh_sock []) [9] [1] [3]))))
     = calls (conn (Connection (fresh_sock []) [9] [1] [3])) @ [Send [0, 0, 0, 0, 5, 0x59, 0x58, 0x18, 0x58, 0x18]]"
    by (simp add: send_def Connection_def fresh_sock_def demo_crypt_def demo_encrypt_def mask_def
        encode_cp_def to_bytes_big_def conn_send_def logged_def be5_Suc)
  have c: "\<forall>m ct. fst (encrypt_aes demo_crypt m (aes_key (Connection (fresh_sock []) [9] [1] [3])) (\<lambda>i. 0)) = Inr ct \<longrightarrow>
           ct \<noteq> [] \<and> decrypt_aes demo_crypt ct (aes_key (Connection (fresh_sock []) [9] [1] [3])) = Inr m"
    using demo_decrypt_encrypt by (auto simp: demo_crypt_def demo_encrypt_def)
  have d: "aes_key (Connection (fresh_sock [Inr [0, 0, 0, 0, 5, 0x59, 0x58, 0x18, 0x58, 0x18]]) [1] [2] [3]) = aes_key (Connection (fresh_sock []) [9] [1] [3])"
    "client_token (Connection (fresh_sock [Inr [0, 0, 0, 0, 5, 0x59, 0x58, 0x18, 0x58, 0x18]]) [1] [2] [3]) = server_token (Connection (fresh_sock []) [9] [1] [3])"
    "pending (conn (Connection (fresh_sock [Inr [0, 0, 0, 0, 5, 0x59, 0x58, 0x18, 0x58, 0x18]]) [1] [2] [3])) = Inr [0, 0, 0, 0, 5, 0x59, 0x58, 0x18, 0x58, 0x18] # []"
    "\<not> is_closed (conn (Connection (fresh_sock [Inr [0, 0, 0, 0, 5, 0x59, 0x58, 0x18, 0x58, 0x18]]) [1] [2] [3]))"
    "\<forall>x. (None :: real option) = Some x \<longrightarrow> 0 \<le> x"
    "\<not> 10 - last_query (Connection (fresh_sock [Inr [0, 0, 0, 0, 5, 0x59, 0x58, 0x18, 0x58, 0x18]]) [1] [2] [3]) < query_cooldown (Connection (fresh_sock [Inr [0, 0, 0, 0, 5, 0x59, 0x58, 0x18, 0x58, 0x18]]) [1] [2] [3])"
    by (simp_all add: Connection_def fresh_sock_def)
  from send_recv_roundtrip [OF a b c d, of 20] a b show ?thesis
    by (simp add: Connection_def fresh_sock_def)
qed

text \<open>
  Claim C1 as stated fails when the frame does not arrive in one piece. The endpoints
  share the key \<open>03\<close>, the receiver expects the sender's token \<open>01\<close>, the cipher decrypts
  what it encrypts, the cooldown has elapsed, and \<open>send\<close> of the text \<open>A\<close> writes a frame
  of ten bytes. Eight of them have arrived when \<open>recv\<close> reads, the other two follow: the
  read of the ciphertext returns three of its five bytes, and \<open>recv\<close> raises
  \<open>UnableToDecrypt\<close> instead of returning \<open>A\<close>.
\<close>

theorem roundtrip_split_frame_counterexample:
  "fst (send demo_crypt [65] 5 (\<lambda>i. 0) (Connection (fresh_sock []) [9] [1] [3])) = Inr () \<and>
   calls (conn (snd (send demo_crypt [65] 5 (\<lambda>i. 0) (Connection (fresh_sock []) [9] [1] [3]))))
     = [Send [0, 0, 0, 0, 5, 0x59, 0x58, 0x18, 0x58, 0x18]] \<and>
   decrypt_aes demo_crypt [0x59, 0x58, 0x18, 0x58, 0x18] [3] = Inr [1, 65] \<and>
   [0, 0, 0, 0, 5, 0x59, 0x58, 0x18] @ [0x58, 0x18] = ([0, 0, 0, 0, 5, 0x59, 0x58, 0x18, 0x58, 0x18] :: bytes) \<and>
   fst (recv demo_crypt None 5 10 20 (Connection (fresh_sock [Inr [0, 0, 0, 0, 5, 0x59, 0x58, 0x18], Inr [0x58, 0x18]]) [1] [2] [3]))
     = Inl UnableToDecrypt"
  by (simp add: send_def recv_def Connection_def fresh_sock_def demo_crypt_def demo_encrypt_def
      demo_decrypt_def mask_def encode_cp_def to_bytes_big_def from_bytes_big_def conn_send_def
      conn_settimeout_def conn_recv_def logged_def be5_Suc)

subsection \<open>Corrupted ciphertexts\<close>

lemma flip_bit_differs: "j < 8 \<Longrightarrow> flip_bit j (b :: byte) \<noteq> b"
proof
  assume j: "j < 8" and e: "flip_bit j b = b"
  have "bit (flip_bit j b) j = (\<not> bit b j)" using j by (simp add: bit_flip_bit_iff)
  with e show False by simp
qed

text \<open>
  Claim C9, with the cipher as the specification describes it. Take the frame that a
  successful \<open>send\<close> has written, flip one bit in its ciphertext part (any position after
  the length prefix), and let it arrive at an endpoint with the same key: \<open>recv\<close> raises
  \<open>UnableToDecrypt\<close> or \<open>InvalidToken\<close>, returns nothing and leaves the timestamp as it
  was.
\<close>

theorem tampered_ciphertext_rejected:
  assumes "fails_on_tampered cr"
    and "fst (send cr P number_size ent sender) = Inr ()"
    and "calls (conn (snd (send cr P number_size ent sender))) = calls (conn sender) @ [Send frame]"
    and "nat number_size \<le> p" and "p < length frame" and "j < 8"
    and "aes_key receiver = aes_key sender"
    and "pending (conn receiver) = Inr (frame[p := flip_bit j (frame ! p)]) # rest"
    and "\<not> is_closed (conn receiver)"
    and "\<forall>x. tmo = Some x \<longrightarrow> 0 \<le> x"
    and "\<not> now - last_query receiver < query_cooldown receiver"
  shows "(fst (recv cr tmo number_size now fin receiver) = Inl UnableToDecrypt \<or>
          fst (recv cr tmo number_size now fin receiver) = Inl InvalidToken) \<and>
         last_query (snd (recv cr tmo number_size now fin receiver)) = last_query receiver"
proof -
  from send_success [OF assms(2)] obtain enc ct leng sa where
    ct: "fst (encrypt_aes cr (server_token sender @ enc) (aes_key sender) ent) = Inr ct" and
    leng: "to_bytes_big (length ct) number_size = Inr leng" and
    sent: "conn_send (leng @ ct) (conn sender) = (Inr (), sa)" and
    res: "send cr P number_size ent sender = (Inr (), sender\<lparr>conn := sa\<rparr>)"
    by blast
  have "calls sa = calls (conn sender) @ [Send (leng @ ct)]"
    using conn_send_frame [OF sent] by simp
  with assms(3) res have frame: "frame = leng @ ct" by simp
  have l: "0 \<le> number_size" "length leng = nat number_size" "from_bytes_big leng = length ct"
    using to_bytes_big_Inr [OF leng] by simp_all
  define i where "i = p - nat number_size"
  define ct' where "ct' = ct[i := flip_bit j (ct ! i)]"
  have i: "i < length ct" using assms(4) assms(5) frame l by (simp add: i_def)
  have tampered: "frame[p := flip_bit j (frame ! p)] = leng @ ct' @ []"
    using assms(4) l by (simp add: frame list_update_append nth_append i_def ct'_def)
  have len: "from_bytes_big leng = length ct'" and ne: "ct' \<noteq> []"
    using l i by (auto simp: ct'_def)
  have "isl (decrypt_aes cr ct' (aes_key sender))"
    using assms(1) ct i assms(6) unfolding fails_on_tampered_def ct'_def by blast
  then obtain e where dec: "decrypt_aes cr ct' (aes_key receiver) = Inl e"
    using assms(7) by (cases "decrypt_aes cr ct' (aes_key sender)") simp_all
  have p: "pending (conn receiver) = Inr (leng @ ct' @ []) # rest"
    using assms(8) tampered by simp
  from recv_full_frame [OF assms(11) assms(9) assms(10) l(1) l(2) len ne p, of cr fin]
  show ?thesis using dec by auto
qed


lemma demo_decrypt_tampered:
  assumes "i < length (demo_encrypt m k)" and "j < 8"
  shows "demo_decrypt ((demo_encrypt m k)[i := flip_bit j (demo_encrypt m k ! i)]) k = Inl CryptError"
proof (cases i)
  case 0
  then show ?thesis using flip_bit_differs [OF assms(2), of "mask k"]
    by (simp add: demo_encrypt_def demo_decrypt_def)
next
  case (Suc n)
  define xs where "xs = map (\<lambda>b. b XOR mask k) m"
  define v where "v = flip_bit j ((xs @ xs) ! n)"
  have n: "n < length xs + length xs" using assms(1) Suc by (simp add: demo_encrypt_def xs_def)
  have v: "v \<noteq> (xs @ xs) ! n" unfolding v_def by (rule flip_bit_differs [OF assms(2)])
  have e: "(demo_encrypt m k)[i := flip_bit j (demo_encrypt m k ! i)] = mask k # (xs @ xs)[n := v]"
    using Suc by (simp add: demo_encrypt_def xs_def v_def)
  have "take (length xs) ((xs @ xs)[n := v]) \<noteq> drop (length xs) ((xs @ xs)[n := v])"
  proof (cases "n < length xs")
    case True
    then have "xs[n := v] \<noteq> xs" using v by (simp add: list_update_same_conv nth_append)
    then show ?thesis using True by (simp add: list_update_append)
  next
    case False
    then have "n - length xs < length xs" using n by simp
    moreover have "v \<noteq> xs ! (n - length xs)" using v False by (simp add: nth_append)
    ultimately have "xs[n - length xs := v] \<noteq> xs" by (simp add: list_update_same_conv)
    then show ?thesis using False by (auto simp: list_update_append)
  qed
  then show ?thesis unfolding e by (simp add: demo_decrypt_def)
qed

lemma demo_fails_on_tampered: "fails_on_tampered demo_crypt"
  unfolding fails_on_tampered_def
  using demo_decrypt_tampered by (auto simp: demo_crypt_def)

theorem tampered_ciphertext_rejected_witness:
  "fst (send demo_crypt [65] 5 (\<lambda>i. 0) (Connection (fresh_sock []) [9] [1] [3])) = Inr () \<and>
   calls (conn (snd (send demo_crypt [65] 5 (\<lambda>i. 0) (Connection (fresh_sock []) [9] [1] [3]))))
     = [Send [0, 0, 0, 0, 5, 0x59, 0x58, 0x18, 0x58, 0x18]] \<and>
   [0, 0, 0, 0, 5, 0x59, 0x58, 0x18, 0x58, 0x18][7 := flip_bit 0 (0x18 :: byte)] = [0, 0, 0, 0, 5, 0x59, 0x58, 0x19, 0x58, 0x18] \<and>
   fst (recv demo_crypt None 5 10 20 (Connection (fresh_sock [Inr [0, 0, 0, 0, 5, 0x59, 0x58, 0x19, 0x58, 0x18]]) [1] [2] [3])) = Inl UnableToDecrypt"
proof -
  have a: "fst (send demo_crypt [65] 5 (\<lambda>i. 0) (Connection (fresh_sock []) [9] [1] [3])) = Inr ()"
    by (simp add: send_def Connection_def fresh_sock_def demo_crypt_def demo_encrypt_def mask_def
        encode_cp_def to_bytes_big_def conn_send_def logged_def be5_Suc)
  have b: "calls (conn (snd (send demo_crypt [65] 5 (\<lambda>i. 0) (Connection (fresh_sock []) [9] [1] [3]))))
     = calls (conn (Connection (fresh_sock []) [9] [1] [3])) @ [Send [0, 0, 0, 0, 5, 0x59, 0x58, 0x18, 0x58, 0x18]]"
    by (simp add: send_def Connection_def fresh_sock_def demo_crypt_def demo_encrypt_def mask_def
        encode_cp_def to_bytes_big_def conn_send_def logged_def be5_Suc)
  have f: "flip_bit 0 (0x18 :: byte) = 0x19" by (simp add: flip_bit_eq_xor)
  have d: "nat 5 \<le> (7::nat)" "7 < length [0, 0, 0, 0, 5, 0x59, 0x58, 0x18, 0x58, 0x18]" "(0::nat) < 8"
    "aes_key (Connection (fresh_sock [Inr [0, 0, 0, 0, 5, 0x59, 0x58, 0x19, 0x58, 0x18]]) [1] [2] [3]) = aes_key (Connection (fresh_sock []) [9] [1] [3])"
    "pending (conn (Connection (fresh_sock [Inr [0, 0, 0, 0, 5, 0x59, 0x58, 0x19, 0x58, 0x18]]) [1] [2] [3]))
       = Inr ([0, 0, 0, 0, 5, 0x59, 0x58, 0x18, 0x58, 0x18][7 := flip_bit 0 ([0, 0, 0, 0, 5, 0x59, 0x58, 0x18, 0x58, 0x18] ! 7)]) # []"
    "\<not> is_closed (conn (Connection (fresh_sock [Inr [0, 0, 0, 0, 5, 0x59, 0x58, 0x19, 0x58, 0x18]]) [1] [2] [3]))"
    "\<forall>x. (None :: real option) = Some x \<longrightarrow> 0 \<le> x"
    "\<not> 10 - last_query (Connection (fresh_sock [Inr [0, 0, 0, 0, 5, 0x59, 0x58, 0x19, 0x58, 0x18]]) [1] [2] [3]) < query_cooldown (Connection (fresh_sock [Inr [0, 0, 0, 0, 5, 0x59, 0x58, 0x19, 0x58, 0x18]]) [1] [2] [3])"
    by (simp_all add: Connection_def fresh_sock_def f)
  have g: "fst (recv demo_crypt None 5 10 20 (Connection (fresh_sock [Inr [0, 0, 0, 0, 5, 0x59, 0x58, 0x19, 0x58, 0x18]]) [1] [2] [3])) \<noteq> Inl InvalidToken"
    by (simp add: recv_def Connection_def fresh_sock_def conn_settimeout_def conn_recv_def
        logged_def from_bytes_big_def demo_crypt_def demo_decrypt_def mask_def)
  from tampered_ciphertext_rejected [OF demo_fails_on_tampered a b d, of 20] a b f g
  show ?thesis by (simp add: Connection_def fresh_sock_def)
qed

text \<open>
  The contract is needed. With a cipher that does not detect changes, a bit flipped in the
  payload part leaves the token prefix intact, and \<open>recv\<close> returns the changed text: the
  frame carries the token \<open>01\<close> and the text \<open>A\<close>; with the lowest bit of the last byte
  flipped, \<open>recv\<close> returns \<open>@\<close>.
\<close>

lemma undetected_flip_is_returned:
  "fst (encrypt_aes stream_crypt [1, 65] [3] ent) = Inr [0x59, 0x58, 0x18] \<and>
   [0x59, 0x58, 0x18][2 := flip_bit 0 (0x18 :: byte)] = [0x59, 0x58, 0x19] \<and>
   fst (recv stream_crypt None 5 10 20
     (Connection (fresh_sock [Inr [0, 0, 0, 0, 3, 0x59, 0x58, 0x19]]) [1] [2] [3])) = Inr [64]"
  by (simp add: recv_def Connection_def fresh_sock_def conn_settimeout_def conn_recv_def
      logged_def from_bytes_big_def stream_crypt_def mask_def utf8_decode_def flip_bit_eq_xor)


end
